theory Spec2Isabelle
  imports Complex_Main "HOL-Library.Sublist"
begin

section \<open>Cell values and the JavaScript operators the script applies to them\<close>

text \<open>
  \<^verbatim>\<open>getValues()\<close> hands the script a two-dimensional array whose cells are strings,
  numbers, booleans or Date objects; an empty cell is the empty string, and reading
  a column a row does not have yields \<^verbatim>\<open>undefined\<close>. A Date object is represented
  by its time value: milliseconds since the epoch, or \<open>None\<close> for an Invalid Date
  (time value NaN). Spreadsheet numbers are finite, so a number is a rational.
\<close>

datatype jsval =
    JUndefined
  | JString string
  | JNumber rat
  | JBoolean bool
  | JDate "int option"

type_synonym row = "jsval list"
type_synonym grid = "row list"

text \<open>\<^verbatim>\<open>r[c]\<close> on a JavaScript array: \<^verbatim>\<open>undefined\<close> beyond the end.\<close>

definition cell :: "row \<Rightarrow> nat \<Rightarrow> jsval" where
  "cell r c = (if c < length r then r ! c else JUndefined)"

text \<open>ToBoolean. Every object is truthy, an Invalid Date included.\<close>

fun truthy :: "jsval \<Rightarrow> bool" where
  "truthy JUndefined = False"
| "truthy (JString s) = (s \<noteq> [])"
| "truthy (JNumber q) = (q \<noteq> 0)"
| "truthy (JBoolean b) = b"
| "truthy (JDate t) = True"

text \<open>\<^verbatim>\<open>a && b\<close>: the left operand itself when it is falsy, the right one otherwise.\<close>

definition js_and :: "jsval \<Rightarrow> jsval \<Rightarrow> jsval" where
  "js_and a b = (if truthy a then b else a)"

text \<open>
  \<^verbatim>\<open>status == "Ready"\<close>, the loose equality. A string is compared character by
  character. A number or a boolean is compared with ToNumber("Ready"), which is NaN,
  so the answer is false. A Date is first turned into its \<^verbatim>\<open>toString()\<close> text, which
  starts with a weekday name or is "Invalid Date", never "Ready". \<^verbatim>\<open>undefined\<close> is
  loosely equal to \<^verbatim>\<open>null\<close> and \<^verbatim>\<open>undefined\<close> only.
\<close>

fun loose_eq_Ready :: "jsval \<Rightarrow> bool" where
  "loose_eq_Ready (JString s) = (s = ''Ready'')"
| "loose_eq_Ready JUndefined = False"
| "loose_eq_Ready (JNumber q) = False"
| "loose_eq_Ready (JBoolean b) = False"
| "loose_eq_Ready (JDate t) = False"

subsection \<open>Dates\<close>

definition msPerDay :: int where
  "msPerDay = 86400000"

text \<open>TimeClip: a time value further than 100,000,000 days from the epoch is NaN.\<close>

definition TimeClip :: "int \<Rightarrow> int option" where
  "TimeClip t = (if \<bar>t\<bar> \<le> 8640000000000000 then Some t else None)"

text \<open>ToIntegerOrInfinity on a finite number: truncation towards zero.\<close>

definition trunc :: "rat \<Rightarrow> int" where
  "trunc q = (if 0 \<le> q then \<lfloor>q\<rfloor> else \<lceil>q\<rceil>)"

text \<open>
  \<^verbatim>\<open>Date.parse\<close> on the date-only ISO form \<^verbatim>\<open>YYYY-MM-DD\<close>, which ECMAScript
  fixes as midnight UTC of that day: DayFromYear, the days before the month, the
  day of the month. What the engine makes of any other text (and of a day the
  month does not have) is its own affair: the parameter \<open>other\<close>, \<open>None\<close> when
  the text is not a date.
\<close>

definition is_digit :: "char \<Rightarrow> bool" where
  "is_digit c = (48 \<le> (of_char c :: nat) \<and> (of_char c :: nat) \<le> 57)"

fun nat_of_digits :: "nat \<Rightarrow> string \<Rightarrow> nat option" where
  "nat_of_digits acc [] = Some acc"
| "nat_of_digits acc (c # cs) =
     (if is_digit c then nat_of_digits (10 * acc + (of_char c - 48)) cs else None)"

definition InLeapYear :: "nat \<Rightarrow> bool" where
  "InLeapYear y = (y mod 4 = 0 \<and> (y mod 100 \<noteq> 0 \<or> y mod 400 = 0))"

definition DaysInMonth :: "nat \<Rightarrow> nat \<Rightarrow> nat" where
  "DaysInMonth y m =
     (if m = 2 then (if InLeapYear y then 29 else 28)
      else if m = 4 \<or> m = 6 \<or> m = 9 \<or> m = 11 then 30 else 31)"

definition DayFromYear :: "nat \<Rightarrow> int" where
  "DayFromYear y =
     365 * (int y - 1970) + (int y - 1969) div 4 - (int y - 1901) div 100
       + (int y - 1601) div 400"

definition MakeDay :: "nat \<Rightarrow> nat \<Rightarrow> nat \<Rightarrow> int" where
  "MakeDay y m d =
     DayFromYear y + int (sum_list (map (DaysInMonth y) [1..<m])) + int d - 1"

definition Date_parse :: "(string \<Rightarrow> int option) \<Rightarrow> string \<Rightarrow> int option" where
  "Date_parse other s =
     (if length s = 10 \<and> s ! 4 = CHR ''-'' \<and> s ! 7 = CHR ''-'' then
        (case (nat_of_digits 0 (take 4 s), nat_of_digits 0 (take 2 (drop 5 s)),
               nat_of_digits 0 (drop 8 s)) of
           (Some y, Some m, Some d) \<Rightarrow>
             if 1 \<le> m \<and> m \<le> 12 \<and> 1 \<le> d \<and> d \<le> DaysInMonth y m
             then Some (MakeDay y m d * msPerDay) else other s
         | _ \<Rightarrow> other s)
      else other s)"

text \<open>
  \<^verbatim>\<open>new Date(v)\<close>. A Date argument is copied; a string goes through \<^verbatim>\<open>Date.parse\<close>;
  anything else goes through ToNumber and TimeClip (\<^verbatim>\<open>undefined\<close> is NaN,
  \<^verbatim>\<open>true\<close> is 1).
\<close>

fun newDate :: "(string \<Rightarrow> int option) \<Rightarrow> jsval \<Rightarrow> int option" where
  "newDate other (JDate t) = t"
| "newDate other (JString s) = Date_parse other s"
| "newDate other (JNumber q) =
     (if \<bar>q\<bar> \<le> 8640000000000000 then Some (trunc q) else None)"
| "newDate other (JBoolean b) = Some (if b then 1 else 0)"
| "newDate other JUndefined = None"

text \<open>
  \<^verbatim>\<open>d.setHours(0, 0, 0, 0)\<close>: the start of the local day that holds \<open>d\<close>. The
  script's time zone is the fixed offset \<open>tz\<close> (milliseconds east of UTC), so
  LocalTime adds it and UTC subtracts it again; a zone whose offset changes over
  the year is outside this model. An Invalid Date stays invalid.
\<close>

fun setHours0 :: "int \<Rightarrow> int option \<Rightarrow> int option" where
  "setHours0 tz None = None"
| "setHours0 tz (Some t) = TimeClip ((t + tz) div msPerDay * msPerDay - tz)"

text \<open>
  \<^verbatim>\<open>a <= b\<close> on two Date objects compares their time values; a comparison with
  NaN is false.
\<close>

fun date_le :: "int option \<Rightarrow> int option \<Rightarrow> bool" where
  "date_le (Some a) (Some b) = (a \<le> b)"
| "date_le _ _ = False"

section \<open>shouldPost\<close>

text \<open>
  \<^verbatim>\<open>
  function shouldPost(data, row) {
      let content = data[row][8];
      let status = data[row][0];
      let rowDate = new Date(data[row][1]);
      rowDate.setHours(0, 0, 0, 0);
      return content && status == "Ready" && rowDate <= today
  }
  \<close>
  The global \<^verbatim>\<open>today\<close>, the engine's parser and the time zone are arguments.
  \<^verbatim>\<open>data[row]\<close> is \<^verbatim>\<open>undefined\<close> for a row the array does not have, and reading a
  column of it throws a TypeError: the result \<open>None\<close>. The result is the value the
  chain of \<^verbatim>\<open>&&\<close> yields, which is a boolean only when the content is truthy.
\<close>

definition shouldPost ::
  "(string \<Rightarrow> int option) \<Rightarrow> int \<Rightarrow> int option \<Rightarrow> grid \<Rightarrow> nat \<Rightarrow> jsval option" where
  "shouldPost other tz today data row =
     (if row < length data then
        (let content = cell (data ! row) 8;
             status = cell (data ! row) 0;
             rowDate = setHours0 tz (newDate other (cell (data ! row) 1))
         in Some (js_and (js_and content (JBoolean (loose_eq_Ready status)))
                         (JBoolean (date_le rowDate today))))
      else None)"

text \<open>What the caller's \<^verbatim>\<open>if (shouldPost(data, i))\<close> makes of the result.\<close>

definition qualifies ::
  "(string \<Rightarrow> int option) \<Rightarrow> int \<Rightarrow> int option \<Rightarrow> grid \<Rightarrow> nat \<Rightarrow> bool" where
  "qualifies other tz today data row =
     (case shouldPost other tz today data row of Some v \<Rightarrow> truthy v | None \<Rightarrow> False)"

text \<open>A cell with nothing in it: the empty string, or a column the row lacks.\<close>

definition cell_empty :: "jsval \<Rightarrow> bool" where
  "cell_empty v = (v = JString [] \<or> v = JUndefined)"

text \<open>A text of blanks only: spaces, tabs, line breaks.\<close>

definition blank :: "string \<Rightarrow> bool" where
  "blank s = list_all (\<lambda>c. c = CHR '' '' \<or> c = CHR 0x09 \<or> c = CHR 0x0A \<or> c = CHR 0x0D) s"

section \<open>The spreadsheet, the remote service and the log\<close>

definition BSKY_HANDLE :: string where
  "BSKY_HANDLE = ''yourhandle.bsky.social''"

definition APP_PASSWORD :: string where
  "APP_PASSWORD = ''xxxx-xxxx-xxxx-xxxx''"

definition SHEET_ID :: string where
  "SHEET_ID = ''your-sheet-id''"

definition SHEET_NAMES :: "string list" where
  "SHEET_NAMES = [''Peak Share'', ''Peak Generation'']"

text \<open>The parsed session: \<^verbatim>\<open>session.accessJwt\<close> and \<^verbatim>\<open>session.did\<close>.\<close>

record session =
  accessJwt :: jsval
  did :: jsval

text \<open>
  The payload of a post: \<^verbatim>\<open>{repo, collection, record: {"$type", "text", "createdAt"}}\<close>.
\<close>

record feed_post =
  type_tag :: string
  post_text :: jsval
  createdAt :: string

record post_record =
  repo :: jsval
  collection :: string
  record_body :: feed_post

text \<open>The three lines the script writes with \<^verbatim>\<open>Logger.log\<close>, and their text.\<close>

datatype log_line =
    Searching string
  | Posting nat
  | ErrorPosting nat string

fun string_of_nat :: "nat \<Rightarrow> string" where
  "string_of_nat n =
     (if n < 10 then [''0123456789'' ! n]
      else string_of_nat (n div 10) @ [''0123456789'' ! (n mod 10)])"

fun render :: "log_line \<Rightarrow> string" where
  "render (Searching sheetName) = ''Searching for posts in '' @ sheetName"
| "render (Posting row_number) = ''Posting row '' @ string_of_nat row_number"
| "render (ErrorPosting row_number e) =
     ''Error posting row '' @ string_of_nat row_number @ '': '' @ e"

text \<open>
  Everything a run does to the outside, in the order it does it: opening the
  spreadsheet, the two kinds of request (\<open>CreateRecord\<close> with the token of its
  \<^verbatim>\<open>Authorization: Bearer\<close> header and the payload), reading a tab's values,
  writing a cell (sheet, row and column counted from 1, value), and log lines.
\<close>

datatype event =
    OpenById string
  | CreateSession string string
  | GetValues string
  | CreateRecord jsval post_record
  | SetValue string nat nat jsval
  | Logged log_line

text \<open>
  The state a run works on: the tabs of the spreadsheet by name, and the events so
  far.
\<close>

record world =
  sheets :: "string \<rightharpoonup> grid"
  trace :: "event list"

text \<open>
  What the script cannot decide itself. \<open>throws\<close> says, for the events so far and
  the call about to be made, whether that call throws, and the text
  \<^verbatim>\<open>e.toString()\<close> of what it throws. A call that throws changes no cell.
  \<open>auth_body\<close> is the text of the session response and \<open>JSON_session\<close> what
  \<^verbatim>\<open>JSON.parse\<close> and the two property reads make of it (\<open>None\<close> when they throw).
  \<open>load_time\<close> is the instant at which the script was loaded and the global
  \<^verbatim>\<open>today\<close> computed; \<open>now_iso\<close> is \<^verbatim>\<open>new Date().toISOString()\<close> at a later point.
\<close>

record env =
  tz_offset :: int
  load_time :: int
  other_dates :: "string \<Rightarrow> int option"
  throws :: "event list \<Rightarrow> event \<Rightarrow> string option"
  auth_body :: string
  JSON_session :: "string \<Rightarrow> session option"
  now_iso :: "event list \<Rightarrow> string"

datatype error = TypeError | SyntaxError | Thrown string

datatype outcome = Completed | Aborted error

text \<open>
  \<^verbatim>\<open>
  var today = new Date();
  today.setHours(0, 0, 0, 0);
  \<close>
\<close>

definition today :: "env \<Rightarrow> int option" where
  "today env = setHours0 (tz_offset env) (Some (load_time env))"

definition emit :: "event \<Rightarrow> world \<Rightarrow> world" where
  "emit e w = w\<lparr>trace := trace w @ [e]\<rparr>"

text \<open>
  \<^verbatim>\<open>getRange(r, c).setValue(v)\<close>, rows and columns counted from 1. The script only
  writes column 1 of a row it has read; a write beyond the rows or the columns of
  the tab widens it with empty cells.
\<close>

definition write_cell :: "grid \<Rightarrow> nat \<Rightarrow> nat \<Rightarrow> jsval \<Rightarrow> grid" where
  "write_cell g r c v =
     (let g' = g @ replicate (r - length g) [];
          old = g' ! (r - 1);
          old' = old @ replicate (c - length old) (JString [])
      in g'[r - 1 := old'[c - 1 := v]])"

definition set_value :: "string \<Rightarrow> nat \<Rightarrow> nat \<Rightarrow> jsval \<Rightarrow> world \<Rightarrow> world" where
  "set_value sheetName r c v w =
     (case sheets w sheetName of
        Some g \<Rightarrow> w\<lparr>sheets := (sheets w)(sheetName \<mapsto> write_cell g r c v)\<rparr>
      | None \<Rightarrow> w)"

section \<open>postToBluesky\<close>

text \<open>The object \<^verbatim>\<open>postRecord\<close> built inside the \<^verbatim>\<open>try\<close>.\<close>

definition postRecord :: "env \<Rightarrow> session \<Rightarrow> jsval \<Rightarrow> event list \<Rightarrow> post_record" where
  "postRecord env s content tr =
     \<lparr>repo = did s,
      collection = ''app.bsky.feed.post'',
      record_body = \<lparr>type_tag = ''app.bsky.feed.post'', post_text = content,
                     createdAt = now_iso env tr\<rparr>\<rparr>"

text \<open>
  The body of the \<^verbatim>\<open>if (shouldPost(data, i))\<close>: the log line, then the \<^verbatim>\<open>try\<close>
  with the request and the write of "Posted", and the \<^verbatim>\<open>catch\<close> that logs whatever
  either of them throws.
  \<^verbatim>\<open>
  let content = data[i][8];
  let row_number = i + 1;
  Logger.log("Posting row " + row_number);
  try {
      const postRecord = {...};
      UrlFetchApp.fetch(".../com.atproto.repo.createRecord", {...});
      sheet.getRange(row_number, 1).setValue("Posted");
  } catch (e) {
      Logger.log("Error posting row " + row_number + ": " + e.toString());
  }
  \<close>
\<close>

definition postRow :: "env \<Rightarrow> session \<Rightarrow> string \<Rightarrow> grid \<Rightarrow> nat \<Rightarrow> world \<Rightarrow> world" where
  "postRow env s sheetName data i w =
     (let content = cell (data ! i) 8;
          row_number = i + 1;
          w1 = emit (Logged (Posting row_number)) w;
          request = CreateRecord (accessJwt s) (postRecord env s content (trace w1))
      in case throws env (trace w1) request of
           Some e \<Rightarrow> emit (Logged (ErrorPosting row_number e)) (emit request w1)
         | None \<Rightarrow>
             (let w2 = emit request w1;
                  write = SetValue sheetName row_number 1 (JString ''Posted'')
              in case throws env (trace w2) write of
                   Some e \<Rightarrow> emit (Logged (ErrorPosting row_number e)) (emit write w2)
                 | None \<Rightarrow>
                     set_value sheetName row_number 1 (JString ''Posted'') (emit write w2)))"

text \<open>
  \<^verbatim>\<open>for (let i = 1; i < data.length; i++) { if (shouldPost(data, i)) {...} }\<close>,
  from index \<open>i\<close> on. \<open>data\<close> is the array read before the loop: the writes of
  the loop go to the spreadsheet, not to it.
\<close>

function rows_loop ::
  "env \<Rightarrow> session \<Rightarrow> string \<Rightarrow> grid \<Rightarrow> nat \<Rightarrow> world \<Rightarrow> world \<times> outcome" where
  "rows_loop env s sheetName data i w =
     (if i < length data then
        (case shouldPost (other_dates env) (tz_offset env) (today env) data i of
           None \<Rightarrow> (w, Aborted TypeError)
         | Some v \<Rightarrow>
             rows_loop env s sheetName data (Suc i)
               (if truthy v then postRow env s sheetName data i w else w))
      else (w, Completed))"
  by pat_completeness auto
termination
  by (relation "measure (\<lambda>(env, s, sheetName, data, i, w). length data - i)") auto

text \<open>
  \<^verbatim>\<open>
  for (const sheetName of SHEET_NAMES) {
      Logger.log("Searching for posts in " + sheetName);
      sheet = ss.getSheetByName(sheetName);
      data = sheet.getDataRange().getValues();
      for (...) {...}
  }
  \<close>
  \<^verbatim>\<open>getSheetByName\<close> answers \<^verbatim>\<open>null\<close> for a tab the spreadsheet does not have, and
  the next line then throws a TypeError that nothing catches.
\<close>

fun tabs_loop :: "env \<Rightarrow> session \<Rightarrow> string list \<Rightarrow> world \<Rightarrow> world \<times> outcome" where
  "tabs_loop env s [] w = (w, Completed)"
| "tabs_loop env s (sheetName # rest) w =
     (let w1 = emit (Logged (Searching sheetName)) w
      in case sheets w1 sheetName of
           None \<Rightarrow> (w1, Aborted TypeError)
         | Some data \<Rightarrow>
             (case throws env (trace w1) (GetValues sheetName) of
                Some e \<Rightarrow> (emit (GetValues sheetName) w1, Aborted (Thrown e))
              | None \<Rightarrow>
                  (case rows_loop env s sheetName data 1 (emit (GetValues sheetName) w1) of
                     (w2, Completed) \<Rightarrow> tabs_loop env s rest w2
                   | (w2, Aborted err) \<Rightarrow> (w2, Aborted err))))"

text \<open>
  The whole run: open the spreadsheet, authenticate, read the session, loop over
  the tabs. Nothing catches what the first three throw.
\<close>

definition postToBluesky :: "env \<Rightarrow> world \<Rightarrow> world \<times> outcome" where
  "postToBluesky env w =
     (case throws env (trace w) (OpenById SHEET_ID) of
        Some e \<Rightarrow> (emit (OpenById SHEET_ID) w, Aborted (Thrown e))
      | None \<Rightarrow>
          (let w1 = emit (OpenById SHEET_ID) w;
               request = CreateSession BSKY_HANDLE APP_PASSWORD
           in case throws env (trace w1) request of
                Some e \<Rightarrow> (emit request w1, Aborted (Thrown e))
              | None \<Rightarrow>
                  (case JSON_session env (auth_body env) of
                     None \<Rightarrow> (emit request w1, Aborted SyntaxError)
                   | Some s \<Rightarrow> tabs_loop env s SHEET_NAMES (emit request w1))))"

section \<open>What a run is observed to do\<close>

text \<open>
  The rows of a tab's data that the loop takes: the indices from 1 on (the header
  row 0 is never looked at) on which the caller's \<^verbatim>\<open>if (shouldPost(data, i))\<close> holds,
  top to bottom.
\<close>

definition due_rows :: "env \<Rightarrow> grid \<Rightarrow> nat list" where
  "due_rows env data =
     filter (qualifies (other_dates env) (tz_offset env) (today env) data) [1..<length data]"

text \<open>
  The steps of a run that the specification's control flow speaks of, read off the
  events: reading a tab's values, announcing a row by its sheet position
  (\<^verbatim>\<open>"Posting row "\<close>), submitting a post with a text.
\<close>

datatype step = ReadTab string | Announce nat | Submit jsval

fun step_of :: "event \<Rightarrow> step list" where
  "step_of (GetValues sheetName) = [ReadTab sheetName]"
| "step_of (Logged (Posting row_number)) = [Announce row_number]"
| "step_of (CreateRecord token r) = [Submit (post_text (record_body r))]"
| "step_of _ = []"

definition steps :: "event list \<Rightarrow> step list" where
  "steps tr = concat (map step_of tr)"

text \<open>
  The steps the specification expects for one tab: one read, then for each due row,
  in order, the announcement of its position \<open>i + 1\<close> and the submission of its
  content cell.
\<close>

definition row_steps :: "grid \<Rightarrow> nat \<Rightarrow> step list" where
  "row_steps data i = [Announce (Suc i), Submit (cell (data ! i) 8)]"

definition tab_steps :: "env \<Rightarrow> string \<Rightarrow> grid \<Rightarrow> step list" where
  "tab_steps env sheetName data =
     ReadTab sheetName # concat (map (row_steps data) (due_rows env data))"

text \<open>
  Which rows of which tabs a trace submitted a post for: the tab is the one read
  last, the row the one announced last.
\<close>

fun track :: "string \<times> nat \<times> (string \<times> nat) list \<Rightarrow> event \<Rightarrow> string \<times> nat \<times> (string \<times> nat) list" where
  "track (tab, r, acc) (GetValues sheetName) = (sheetName, r, acc)"
| "track (tab, r, acc) (Logged (Posting row_number)) = (tab, row_number, acc)"
| "track (tab, r, acc) (CreateRecord token p) = (tab, r, acc @ [(tab, r)])"
| "track (tab, r, acc) _ = (tab, r, acc)"

definition posted_rows :: "event list \<Rightarrow> (string \<times> nat) list" where
  "posted_rows tr = snd (snd (foldl track ([], 0, []) tr))"

text \<open>
  The rows the specification expects to be posted for one tab, by sheet position.
\<close>

definition tab_rows :: "env \<Rightarrow> string \<Rightarrow> grid \<Rightarrow> (string \<times> nat) list" where
  "tab_rows env sheetName data = map (\<lambda>i. (sheetName, Suc i)) (due_rows env data)"

text \<open>
  A log line of the \<^verbatim>\<open>catch\<close>; and a tab after "Posted" has been written into the
  status cells of the given rows.
\<close>

fun row_error :: "event \<Rightarrow> bool" where
  "row_error (Logged (ErrorPosting row_number e)) = True"
| "row_error _ = False"

definition mark_posted :: "grid \<Rightarrow> nat list \<Rightarrow> grid" where
  "mark_posted g rows = foldl (\<lambda>g i. write_cell g (Suc i) 1 (JString ''Posted'')) g rows"

text \<open>
  The request \<^verbatim>\<open>UrlFetchApp.fetch(".../createRecord", ...)\<close> that the loop makes for
  row \<open>i\<close> in state \<open>w\<close>.
\<close>

definition post_request :: "env \<Rightarrow> session \<Rightarrow> grid \<Rightarrow> nat \<Rightarrow> world \<Rightarrow> event" where
  "post_request env s data i w =
     CreateRecord (accessJwt s)
       (postRecord env s (cell (data ! i) 8) (trace w @ [Logged (Posting (i + 1))]))"

text \<open>
  The state in which the loop over a tab's rows, started in state \<open>w\<close>, arrives at
  row \<open>i\<close>: the rows from index 1 up to \<open>i - 1\<close> have had their turn, those that
  shouldPost takes through the body of the \<^verbatim>\<open>if\<close>. It is used to name the events and
  cells a run has produced when it comes to a row.
\<close>

definition rows_before :: "env \<Rightarrow> session \<Rightarrow> string \<Rightarrow> grid \<Rightarrow> nat \<Rightarrow> world \<Rightarrow> world" where
  "rows_before env s sheetName data i w =
     foldl (\<lambda>v k. if qualifies (other_dates env) (tz_offset env) (today env) data k
                   then postRow env s sheetName data k v else v)
       w [1..<i]"

section \<open>Concrete inputs for the examples\<close>

text \<open>
  An engine whose \<^verbatim>\<open>Date.parse\<close> knows the date-only ISO form and nothing else; four
  behaviours of the outside (nothing throws; the post request for "Hello world"
  throws; the write into row 3 of "Peak Share" throws; the session request throws);
  a script loaded at noon UTC of 2 January 2024 in a zone one hour east of UTC; a
  spreadsheet whose tab "Peak Share" has a header and one row due the day before;
  and a spreadsheet with three due rows in "Peak Share", "Hello world" the middle
  one, and one due row in "Peak Generation".
\<close>

definition reject :: "string \<Rightarrow> int option" where
  "reject s = None"

fun never :: "event list \<Rightarrow> event \<Rightarrow> string option" where
  "never h e = None"

fun hello_post_fails :: "event list \<Rightarrow> event \<Rightarrow> string option" where
  "hello_post_fails h (CreateRecord token p) =
     (if post_text (record_body p) = JString ''Hello world''
      then Some ''Exception: Request failed'' else None)"
| "hello_post_fails h e = None"

fun hello_write_fails :: "event list \<Rightarrow> event \<Rightarrow> string option" where
  "hello_write_fails h (SetValue sheetName r c v) =
     (if sheetName = ''Peak Share'' \<and> r = 3 then Some ''Exception: Service error'' else None)"
| "hello_write_fails h e = None"

fun auth_fails :: "event list \<Rightarrow> event \<Rightarrow> string option" where
  "auth_fails h (CreateSession identifier password) = Some ''Exception: Request failed''"
| "auth_fails h e = None"

definition the_session :: session where
  "the_session = \<lparr>accessJwt = JString ''jwt'', did = JString ''did:plc:me''\<rparr>"

definition read_session :: "string \<Rightarrow> session option" where
  "read_session body = (if body = ''session'' then Some the_session else None)"

definition clock :: "event list \<Rightarrow> string" where
  "clock h = ''2024-01-02T12:00:00.000Z''"

definition engine :: "(event list \<Rightarrow> event \<Rightarrow> string option) \<Rightarrow> env" where
  "engine policy =
     \<lparr>tz_offset = 3600000, load_time = 1704196800000, other_dates = reject,
      throws = policy, auth_body = ''session'', JSON_session = read_session,
      now_iso = clock\<rparr>"

definition header :: row where
  "header = [JString ''Status'', JString ''Date'', JString [], JString [], JString [],
             JString [], JString [], JString [], JString ''Content'']"

definition hello_row :: row where
  "hello_row = [JString ''Ready'', JString ''2024-01-01'', JString [], JString [], JString [],
                JString [], JString [], JString [], JString ''Hello world'']"

definition book :: world where
  "book = \<lparr>sheets = [''Peak Share'' \<mapsto> [header, hello_row],
                      ''Peak Generation'' \<mapsto> [header]],
           trace = []\<rparr>"

definition first_row :: row where
  "first_row = [JString ''Ready'', JString ''2024-01-01'', JString [], JString [], JString [],
                JString [], JString [], JString [], JString ''First'']"

definition last_row :: row where
  "last_row = [JString ''Ready'', JString ''2024-01-01'', JString [], JString [], JString [],
               JString [], JString [], JString [], JString ''Last'']"

definition other_row :: row where
  "other_row = [JString ''Ready'', JString ''2024-01-01'', JString [], JString [], JString [],
                JString [], JString [], JString [], JString ''Other'']"

definition ledger :: world where
  "ledger = \<lparr>sheets = [''Peak Share'' \<mapsto> [header, first_row, hello_row, last_row],
                        ''Peak Generation'' \<mapsto> [header, other_row]],
             trace = []\<rparr>"

section \<open>Lemmas\<close>

declare rows_loop.simps [simp del]

subsection \<open>shouldPost\<close>

lemma shouldPost_value:
  "i < length data \<Longrightarrow>
   shouldPost other z td data i =
     Some (if \<not> truthy (cell (data ! i) 8) then cell (data ! i) 8
           else if \<not> loose_eq_Ready (cell (data ! i) 0) then JBoolean False
           else JBoolean (date_le (setHours0 z (newDate other (cell (data ! i) 1))) td))"
  by (simp add: shouldPost_def js_and_def Let_def)

lemma loose_eq_Ready_iff: "loose_eq_Ready v \<longleftrightarrow> v = JString ''Ready''"
  by (cases v) simp_all

lemma qualifies_iff:
  "qualifies other z td data i \<longleftrightarrow>
     i < length data \<and> truthy (cell (data ! i) 8) \<and> cell (data ! i) 0 = JString ''Ready'' \<and>
     date_le (setHours0 z (newDate other (cell (data ! i) 1))) td"
  by (auto simp: qualifies_def shouldPost_def js_and_def Let_def loose_eq_Ready_iff)

subsection \<open>Events and cells\<close>

lemma steps_append: "steps (xs @ ys) = steps xs @ steps ys"
  by (simp add: steps_def)

lemma trace_emit: "trace (emit e w) = trace w @ [e]"
  by (simp add: emit_def)

lemma sheets_emit: "sheets (emit e w) = sheets w"
  by (simp add: emit_def)

lemma trace_set_value: "trace (set_value n r c v w) = trace w"
  by (simp add: set_value_def split: option.splits)

lemma sheets_set_value_other: "n' \<noteq> n \<Longrightarrow> sheets (set_value n r c v w) n' = sheets w n'"
  by (simp add: set_value_def split: option.splits)

lemma upt_filter_step:
  "i < n \<Longrightarrow> filter P [i..<n] = (if P i then [i] else []) @ filter P [Suc i..<n]"
  by (simp add: upt_conv_Cons)

lemma write_cell_in_range:
  "i < length g \<Longrightarrow>
   write_cell g (Suc i) (Suc 0) v = g[i := (g ! i @ replicate (Suc 0 - length (g ! i)) (JString []))[0 := v]]"
  by (simp add: write_cell_def Let_def)

lemma length_write_cell: "i < length g \<Longrightarrow> length (write_cell g (Suc i) (Suc 0) v) = length g"
  by (simp add: write_cell_in_range)

lemma write_cell_other:
  "i < length g \<Longrightarrow> j \<noteq> i \<Longrightarrow> write_cell g (Suc i) (Suc 0) v ! j = g ! j"
  by (simp add: write_cell_in_range)

lemma write_cell_status:
  "i < length g \<Longrightarrow> cell (write_cell g (Suc i) (Suc 0) v ! i) 0 = v"
  by (cases "g ! i") (simp_all add: write_cell_in_range cell_def)

lemma write_cell_keeps:
  "j < length g \<Longrightarrow> j \<noteq> k \<Longrightarrow>
   j < length (write_cell g (Suc k) c v) \<and> write_cell g (Suc k) c v ! j = g ! j"
  by (simp add: write_cell_def Let_def nth_append)

lemma mark_posted_snoc:
  "mark_posted g (rows @ [i]) = write_cell (mark_posted g rows) (Suc i) (Suc 0) (JString ''Posted'')"
  by (simp add: mark_posted_def)

lemma mark_posted_Cons:
  "mark_posted g (i # rows) = mark_posted (write_cell g (Suc i) (Suc 0) (JString ''Posted'')) rows"
  by (simp add: mark_posted_def)

lemma length_mark_posted:
  "\<forall>i\<in>set rows. i < length g \<Longrightarrow> length (mark_posted g rows) = length g"
  by (induction rows rule: rev_induct) (simp_all add: mark_posted_def length_write_cell)

lemma mark_posted_status:
  "\<forall>i\<in>set rows. i < length g \<Longrightarrow> j \<in> set rows \<Longrightarrow>
   cell (mark_posted g rows ! j) 0 = JString ''Posted''"
proof (induction rows rule: rev_induct)
  case Nil
  then show ?case by simp
next
  case (snoc i rows)
  then have len: "i < length (mark_posted g rows)"
    by (simp add: length_mark_posted)
  show ?case
  proof (cases "j = i")
    case True
    with len show ?thesis
      by (simp add: mark_posted_snoc write_cell_status)
  next
    case False
    with snoc len show ?thesis
      by (simp add: mark_posted_snoc write_cell_other)
  qed
qed

subsection \<open>One row\<close>

lemma steps_postRow:
  "steps (trace (postRow env s n data i w)) = steps (trace w) @ row_steps data i"
  by (simp add: postRow_def Let_def trace_emit trace_set_value steps_def postRecord_def
      row_steps_def split: option.splits)

lemma sheets_postRow_other:
  "n' \<noteq> n \<Longrightarrow> sheets (postRow env s n data i w) n' = sheets w n'"
  by (simp add: postRow_def Let_def sheets_emit sheets_set_value_other split: option.splits)

lemma track_postRow:
  "foldl track st (trace w) = (n, r, acc) \<Longrightarrow>
   foldl track st (trace (postRow env s n data i w)) = (n, Suc i, acc @ [(n, Suc i)])"
  by (simp add: postRow_def Let_def trace_emit trace_set_value split: option.splits)

lemma postRow_error_or_written:
  "sheets w n = Some g \<Longrightarrow>
   list_ex row_error (trace (postRow env s n data i w)) \<or>
   sheets (postRow env s n data i w) =
     (sheets w)(n \<mapsto> write_cell g (Suc i) (Suc 0) (JString ''Posted''))"
  by (simp add: postRow_def Let_def trace_emit sheets_emit set_value_def split: option.splits)

lemma postRow_keeps_error:
  "list_ex row_error (trace w) \<Longrightarrow> list_ex row_error (trace (postRow env s n data i w))"
  by (simp add: postRow_def Let_def trace_emit trace_set_value split: option.splits)

lemma postRow_keeps_row:
  assumes "sheets w n = Some g" and "j < length g" and "j \<noteq> i"
  shows "\<exists>g'. sheets (postRow env s n data i w) n = Some g' \<and> j < length g' \<and> g' ! j = g ! j"
  using assms write_cell_keeps [of j g i "Suc 0" "JString ''Posted''"]
  by (simp add: postRow_def Let_def sheets_emit set_value_def split: option.splits)

lemma prefix_postRow: "prefix (trace w) (trace (postRow env s n data i w))"
  by (simp add: postRow_def Let_def trace_emit trace_set_value split: option.splits)

subsection \<open>The loop over the rows of a tab\<close>

lemma rows_loop_done: "\<not> i < length data \<Longrightarrow> rows_loop env s n data i w = (w, Completed)"
  by (subst rows_loop.simps) simp

lemma rows_loop_step:
  "i < length data \<Longrightarrow>
   rows_loop env s n data i w =
     rows_loop env s n data (Suc i)
       (if qualifies (other_dates env) (tz_offset env) (today env) data i
        then postRow env s n data i w else w)"
  by (subst rows_loop.simps) (simp add: qualifies_def shouldPost_def)

lemma rows_loop_Completed: "snd (rows_loop env s n data i w) = Completed"
proof (induction env s n data i w rule: rows_loop.induct)
  case (1 env s n data i w)
  show ?case
  proof (cases "i < length data")
    case True
    then obtain v where v: "shouldPost (other_dates env) (tz_offset env) (today env) data i = Some v"
      by (simp add: shouldPost_def)
    from "1.IH" [OF True v] show ?thesis
      using True v by (subst rows_loop.simps) simp
  next
    case False
    then show ?thesis by (simp add: rows_loop_done)
  qed
qed

lemma rows_loop_induct [case_names stop step]:
  assumes stop: "\<And>i w. \<not> i < length data \<Longrightarrow> P i w"
    and step: "\<And>i w. i < length data \<Longrightarrow>
       P (Suc i) (if qualifies (other_dates env) (tz_offset env) (today env) data i
                  then postRow env s n data i w else w) \<Longrightarrow> P i w"
  shows "P i w"
proof (induction "length data - i" arbitrary: i w)
  case 0
  then show ?case by (intro stop) simp
next
  case (Suc k)
  then have lt: "i < length data" by simp
  from Suc have "k = length data - Suc i" by simp
  then show ?case using Suc.hyps(1) step lt by blast
qed

lemma steps_rows_loop:
  "steps (trace (fst (rows_loop env s n data i w))) =
     steps (trace w) @
     concat (map (row_steps data)
       (filter (qualifies (other_dates env) (tz_offset env) (today env) data) [i..<length data]))"
proof (induction i w rule: rows_loop_induct [where data = data and env = env and s = s and n = n])
  case (stop i w)
  then show ?case by (simp add: rows_loop_done)
next
  case (step i w)
  then show ?case
    by (simp add: rows_loop_step upt_filter_step steps_postRow)
qed

lemma sheets_rows_loop_other:
  "n' \<noteq> n \<Longrightarrow> sheets (fst (rows_loop env s n data i w)) n' = sheets w n'"
proof (induction i w rule: rows_loop_induct [where data = data and env = env and s = s and n = n])
  case (stop i w)
  then show ?case by (simp add: rows_loop_done)
next
  case (step i w)
  then show ?case
    by (simp add: rows_loop_step sheets_postRow_other split: if_splits)
qed

lemma track_rows_loop:
  "foldl track st (trace w) = (n, r, acc) \<Longrightarrow>
   \<exists>r'. foldl track st (trace (fst (rows_loop env s n data i w))) =
     (n, r', acc @ map (\<lambda>i. (n, Suc i))
        (filter (qualifies (other_dates env) (tz_offset env) (today env) data) [i..<length data]))"
proof (induction i w arbitrary: r acc
    rule: rows_loop_induct [where data = data and env = env and s = s and n = n])
  case (stop i w)
  then show ?case by (simp add: rows_loop_done)
next
  case (step i w)
  show ?case
  proof (cases "qualifies (other_dates env) (tz_offset env) (today env) data i")
    case True
    from step.prems have
      "foldl track st (trace (postRow env s n data i w)) = (n, Suc i, acc @ [(n, Suc i)])"
      by (rule track_postRow)
    from step.IH [of "Suc i" "acc @ [(n, Suc i)]"] this True step.hyps show ?thesis
      by (simp add: rows_loop_step upt_filter_step)
  next
    case False
    from step.IH [of r acc] step.prems False step.hyps show ?thesis
      by (simp add: rows_loop_step upt_filter_step)
  qed
qed

lemma rows_loop_keeps_error:
  "list_ex row_error (trace w) \<Longrightarrow>
   list_ex row_error (trace (fst (rows_loop env s n data i w)))"
proof (induction i w rule: rows_loop_induct [where data = data and env = env and s = s and n = n])
  case (stop i w)
  then show ?case by (simp add: rows_loop_done)
next
  case (step i w)
  then show ?case
    by (simp add: rows_loop_step postRow_keeps_error split: if_splits)
qed

lemma sheets_rows_loop:
  "\<not> list_ex row_error (trace (fst (rows_loop env s n data i w))) \<Longrightarrow>
   sheets w n = Some g \<Longrightarrow>
   sheets (fst (rows_loop env s n data i w)) n =
     Some (mark_posted g
       (filter (qualifies (other_dates env) (tz_offset env) (today env) data) [i..<length data]))"
proof (induction i w arbitrary: g
    rule: rows_loop_induct [where data = data and env = env and s = s and n = n])
  case (stop i w)
  then show ?case by (simp add: rows_loop_done mark_posted_def)
next
  case (step i w)
  show ?case
  proof (cases "qualifies (other_dates env) (tz_offset env) (today env) data i")
    case True
    let ?w' = "postRow env s n data i w"
    from step.prems(1) True step.hyps
    have fin: "\<not> list_ex row_error (trace (fst (rows_loop env s n data (Suc i) ?w')))"
      by (simp add: rows_loop_step)
    then have "\<not> list_ex row_error (trace ?w')"
      using rows_loop_keeps_error by blast
    with postRow_error_or_written [OF step.prems(2), of env s data i]
    have "sheets ?w' n = Some (write_cell g (Suc i) (Suc 0) (JString ''Posted''))"
      by simp
    from step.IH [of "write_cell g (Suc i) (Suc 0) (JString ''Posted'')"] fin this True step.hyps
    show ?thesis
      by (simp add: rows_loop_step upt_filter_step mark_posted_Cons)
  next
    case False
    from step.IH [of g] step.prems False step.hyps show ?thesis
      by (simp add: rows_loop_step upt_filter_step)
  qed
qed

lemma rows_loop_keeps_row:
  "sheets w n = Some g \<Longrightarrow> j < length g \<Longrightarrow> j < i \<Longrightarrow>
   \<exists>g'. sheets (fst (rows_loop env s n data i w)) n = Some g' \<and> j < length g' \<and> g' ! j = g ! j"
proof (induction i w arbitrary: g
    rule: rows_loop_induct [where data = data and env = env and s = s and n = n])
  case (stop i w)
  then show ?case by (simp add: rows_loop_done)
next
  case (step i w)
  show ?case
  proof (cases "qualifies (other_dates env) (tz_offset env) (today env) data i")
    case True
    from step.prems have "j \<noteq> i" by simp
    from postRow_keeps_row [OF step.prems(1,2) this, of env s data]
    obtain g1 where g1: "sheets (postRow env s n data i w) n = Some g1"
      "j < length g1" "g1 ! j = g ! j"
      by blast
    from step.IH [of g1] g1 True step.prems(3) step.hyps show ?thesis
      by (simp add: rows_loop_step)
  next
    case False
    from step.IH [of g] step.prems False step.hyps show ?thesis
      by (simp add: rows_loop_step)
  qed
qed

lemma rows_loop_none_due:
  "filter (qualifies (other_dates env) (tz_offset env) (today env) data) [i..<length data] = [] \<Longrightarrow>
   rows_loop env s n data i w = (w, Completed)"
proof (induction i w rule: rows_loop_induct [where data = data and env = env and s = s and n = n])
  case (stop i w)
  then show ?case by (simp add: rows_loop_done)
next
  case (step i w)
  then show ?case
    by (simp add: rows_loop_step upt_filter_step split: if_splits)
qed

lemma prefix_rows_loop: "prefix (trace w) (trace (fst (rows_loop env s n data i w)))"
proof (induction i w rule: rows_loop_induct [where data = data and env = env and s = s and n = n])
  case (stop i w)
  then show ?case by (simp add: rows_loop_done)
next
  case (step i w)
  show ?case
  proof (cases "qualifies (other_dates env) (tz_offset env) (today env) data i")
    case True
    with step have "prefix (trace (postRow env s n data i w))
        (trace (fst (rows_loop env s n data i w)))"
      by (simp add: rows_loop_step)
    with prefix_postRow [of w env s n data i] show ?thesis
      by (rule prefix_order.trans)
  next
    case False
    with step show ?thesis by (simp add: rows_loop_step)
  qed
qed

lemma rows_before_Suc:
  "1 \<le> i \<Longrightarrow>
   rows_before env s n data (Suc i) w =
     (if qualifies (other_dates env) (tz_offset env) (today env) data i
      then postRow env s n data i (rows_before env s n data i w)
      else rows_before env s n data i w)"
  by (simp add: rows_before_def)

lemma rows_loop_from_row:
  "1 \<le> i \<Longrightarrow> i \<le> length data \<Longrightarrow>
   rows_loop env s n data 1 w = rows_loop env s n data i (rows_before env s n data i w)"
proof (induction i)
  case 0
  then show ?case by simp
next
  case (Suc i)
  show ?case
  proof (cases "i = 0")
    case True
    then show ?thesis by (simp add: rows_before_def)
  next
    case False
    with Suc.prems have "1 \<le> i" and "i < length data"
      by simp_all
    with Suc.IH show ?thesis
      by (simp add: rows_before_Suc rows_loop_step)
  qed
qed

lemma rows_before_keeps_row:
  "sheets w n = Some g \<Longrightarrow> j < length g \<Longrightarrow> i \<le> j \<Longrightarrow>
   \<exists>g'. sheets (rows_before env s n data i w) n = Some g' \<and> j < length g' \<and> g' ! j = g ! j"
proof (induction i)
  case 0
  then show ?case by (simp add: rows_before_def)
next
  case (Suc i)
  show ?case
  proof (cases "i = 0")
    case True
    with Suc.prems show ?thesis by (simp add: rows_before_def)
  next
    case False
    then have one: "1 \<le> i" by simp
    from Suc.prems have "i \<le> j" and ne: "j \<noteq> i" by simp_all
    with Suc.IH Suc.prems(1,2) obtain g1 where
      g1: "sheets (rows_before env s n data i w) n = Some g1" "j < length g1" "g1 ! j = g ! j"
      by blast
    from postRow_keeps_row [OF g1(1,2) ne, of env s data] g1
    show ?thesis
      by (auto simp: rows_before_Suc [OF one])
  qed
qed

lemma sheets_rows_before_other:
  "n' \<noteq> n \<Longrightarrow> sheets (rows_before env s n data i w) n' = sheets w n'"
proof (induction i)
  case 0
  then show ?case by (simp add: rows_before_def)
next
  case (Suc i)
  then show ?case
    by (cases "i = 0") (simp_all add: rows_before_def sheets_postRow_other)
qed

subsection \<open>The loop over the tabs\<close>

lemma tabs_loop_Cons_cases:
  assumes "tabs_loop env s (n # rest) w = (w', out)"
  obtains
    (missing) "sheets w n = None" "w' = emit (Logged (Searching n)) w" "out = Aborted TypeError"
  | (unread) data e where "sheets w n = Some data"
      "throws env (trace w @ [Logged (Searching n)]) (GetValues n) = Some e"
      "w' = emit (GetValues n) (emit (Logged (Searching n)) w)" "out = Aborted (Thrown e)"
  | (read) data where "sheets w n = Some data"
      "throws env (trace w @ [Logged (Searching n)]) (GetValues n) = None"
      "tabs_loop env s rest
         (fst (rows_loop env s n data 1
            (emit (GetValues n) (emit (Logged (Searching n)) w)))) = (w', out)"
proof (cases "sheets w n")
  case None
  with assms missing show thesis
    by (simp add: Let_def sheets_emit)
next
  case (Some data)
  show thesis
  proof (cases "throws env (trace w @ [Logged (Searching n)]) (GetValues n)")
    case (Some e)
    with assms \<open>sheets w n = Some data\<close> unread show thesis
      by (simp add: Let_def sheets_emit trace_emit)
  next
    case None
    let ?w1 = "emit (Logged (Searching n)) w"
    obtain w2 o2 where r: "rows_loop env s n data 1 (emit (GetValues n) ?w1) = (w2, o2)"
      by (cases "rows_loop env s n data 1 (emit (GetValues n) ?w1)")
    with rows_loop_Completed [of env s n data 1 "emit (GetValues n) ?w1"]
    have "o2 = Completed" by simp
    with assms \<open>sheets w n = Some data\<close> None r
    have "tabs_loop env s rest w2 = (w', out)"
      by (simp add: Let_def sheets_emit trace_emit)
    with r \<open>sheets w n = Some data\<close> None read show thesis by simp
  qed
qed

lemma steps_tabs_loop_any:
  "distinct names \<Longrightarrow> tabs_loop env s names w = (w', out) \<Longrightarrow>
   \<exists>rest. steps (trace w) @ concat (map (\<lambda>n. tab_steps env n (the (sheets w n))) names) =
            steps (trace w') @ rest \<and>
          (out = Completed \<longrightarrow> rest = [])"
proof (induction names arbitrary: w)
  case Nil
  then show ?case by simp
next
  case (Cons n rest)
  from Cons.prems(2) show ?case
  proof (cases rule: tabs_loop_Cons_cases)
    case missing
    then show ?thesis
      by (simp add: trace_emit steps_append) (simp add: steps_def)
  next
    case (unread data e)
    then show ?thesis
      by (simp add: trace_emit steps_append tab_steps_def) (simp add: steps_def)
  next
    case (read data)
    let ?w2 = "fst (rows_loop env s n data 1
                 (emit (GetValues n) (emit (Logged (Searching n)) w)))"
    from Cons.prems(1) have dist: "distinct rest" and notin: "n \<notin> set rest"
      by simp_all
    have same: "sheets ?w2 m = sheets w m" if "m \<in> set rest" for m
    proof -
      from that notin have "m \<noteq> n" by auto
      then show ?thesis by (simp add: sheets_rows_loop_other sheets_emit)
    qed
    have meq: "map (\<lambda>m. tab_steps env m (the (sheets ?w2 m))) rest =
               map (\<lambda>m. tab_steps env m (the (sheets w m))) rest"
    proof (rule map_cong [OF refl])
      fix m
      assume "m \<in> set rest"
      then have "sheets ?w2 m = sheets w m" by (rule same)
      then show "tab_steps env m (the (sheets ?w2 m)) = tab_steps env m (the (sheets w m))"
        by (simp only:)
    qed
    have here: "steps (trace ?w2) = steps (trace w) @ tab_steps env n data"
      by (simp add: steps_rows_loop trace_emit steps_append tab_steps_def due_rows_def)
         (simp add: steps_def)
    from Cons.IH [OF dist read(3)] obtain tl where
      tl: "steps (trace ?w2) @ concat (map (\<lambda>m. tab_steps env m (the (sheets ?w2 m))) rest) =
           steps (trace w') @ tl" "out = Completed \<longrightarrow> tl = []"
      by blast
    from tl(1) have "steps (trace w) @ tab_steps env n data @
        concat (map (\<lambda>m. tab_steps env m (the (sheets w m))) rest) = steps (trace w') @ tl"
      by (simp only: meq here append_assoc)
    with tl(2) read(1) show ?thesis
      by simp
  qed
qed

lemma track_tabs_loop:
  "distinct names \<Longrightarrow> tabs_loop env s names w = (w', out) \<Longrightarrow>
   foldl track st (trace w) = (t, r, acc) \<Longrightarrow>
   \<exists>k t' r'. k \<le> length names \<and> (out = Completed \<longrightarrow> k = length names) \<and>
     foldl track st (trace w') =
       (t', r', acc @ concat (map (\<lambda>n. tab_rows env n (the (sheets w n))) (take k names)))"
proof (induction names arbitrary: w t r acc)
  case Nil
  then show ?case by simp
next
  case (Cons n rest)
  from Cons.prems(2) show ?case
  proof (cases rule: tabs_loop_Cons_cases)
    case missing
    with Cons.prems(3) have "foldl track st (trace w') = (t, r, acc)"
      by (simp add: trace_emit)
    then show ?thesis using missing
      by (intro exI [of _ 0]) simp
  next
    case (unread data e)
    with Cons.prems(3) have "foldl track st (trace w') = (n, r, acc)"
      by (simp add: trace_emit)
    then show ?thesis using unread
      by (intro exI [of _ 0]) simp
  next
    case (read data)
    let ?w2 = "fst (rows_loop env s n data 1
                 (emit (GetValues n) (emit (Logged (Searching n)) w)))"
    from Cons.prems(1) have dist: "distinct rest" and notin: "n \<notin> set rest"
      by simp_all
    have same: "sheets ?w2 m = sheets w m" if "m \<in> set rest" for m
    proof -
      from that notin have "m \<noteq> n" by auto
      then show ?thesis by (simp add: sheets_rows_loop_other sheets_emit)
    qed
    from Cons.prems(3) have
      "foldl track st (trace (emit (GetValues n) (emit (Logged (Searching n)) w))) = (n, r, acc)"
      by (simp add: trace_emit)
    from track_rows_loop [OF this, of env s data 1]
    obtain r2 where t2: "foldl track st (trace ?w2) = (n, r2, acc @ tab_rows env n data)"
      by (auto simp: tab_rows_def due_rows_def)
    from Cons.IH [OF dist read(3) t2]
    obtain k t' r' where k: "k \<le> length rest" "out = Completed \<longrightarrow> k = length rest"
      and fin: "foldl track st (trace w') =
        (t', r', (acc @ tab_rows env n data) @
           concat (map (\<lambda>m. tab_rows env m (the (sheets ?w2 m))) (take k rest)))"
      by blast
    have meq: "map (\<lambda>m. tab_rows env m (the (sheets ?w2 m))) (take k rest) =
          map (\<lambda>m. tab_rows env m (the (sheets w m))) (take k rest)"
    proof (rule map_cong [OF refl])
      fix m
      assume "m \<in> set (take k rest)"
      then have "m \<in> set rest" by (rule in_set_takeD)
      then have "sheets ?w2 m = sheets w m" by (rule same)
      then show "tab_rows env m (the (sheets ?w2 m)) = tab_rows env m (the (sheets w m))"
        by (simp only:)
    qed
    from fin have
      "foldl track st (trace w') =
        (t', r', (acc @ tab_rows env n data) @
           concat (map (\<lambda>m. tab_rows env m (the (sheets w m))) (take k rest)))"
      by (simp only: meq)
    with read(1) have
      "foldl track st (trace w') =
        (t', r', acc @ concat (map (\<lambda>m. tab_rows env m (the (sheets w m))) (take (Suc k) (n # rest))))"
      by simp
    with k show ?thesis
      by (intro exI [of _ "Suc k"] exI [of _ t'] exI [of _ r']) simp
  qed
qed

lemma tabs_loop_keeps_error:
  "tabs_loop env s names w = (w', out) \<Longrightarrow> list_ex row_error (trace w) \<Longrightarrow>
   list_ex row_error (trace w')"
proof (induction names arbitrary: w)
  case Nil
  then show ?case by simp
next
  case (Cons n rest)
  from Cons.prems(1) show ?case
  proof (cases rule: tabs_loop_Cons_cases)
    case missing
    with Cons.prems(2) show ?thesis by (simp add: trace_emit)
  next
    case (unread data e)
    with Cons.prems(2) show ?thesis by (simp add: trace_emit)
  next
    case (read data)
    from Cons.prems(2) have
      "list_ex row_error (trace (fst (rows_loop env s n data 1
          (emit (GetValues n) (emit (Logged (Searching n)) w)))))"
      by (intro rows_loop_keeps_error) (simp add: trace_emit)
    with Cons.IH [OF read(3)] show ?thesis .
  qed
qed

lemma sheets_tabs_loop_other:
  "tabs_loop env s names w = (w', out) \<Longrightarrow> m \<notin> set names \<Longrightarrow> sheets w' m = sheets w m"
proof (induction names arbitrary: w)
  case Nil
  then show ?case by simp
next
  case (Cons n rest)
  from Cons.prems(2) have ne: "m \<noteq> n" and notin: "m \<notin> set rest"
    by simp_all
  from Cons.prems(1) show ?case
  proof (cases rule: tabs_loop_Cons_cases)
    case missing
    then show ?thesis by (simp add: sheets_emit)
  next
    case (unread data e)
    then show ?thesis by (simp add: sheets_emit)
  next
    case (read data)
    from Cons.IH [OF read(3) notin] ne show ?thesis
      by (simp add: sheets_rows_loop_other sheets_emit)
  qed
qed

lemma sheets_tabs_loop:
  "distinct names \<Longrightarrow> tabs_loop env s names w = (w', out) \<Longrightarrow>
   \<not> list_ex row_error (trace w') \<Longrightarrow> out = Completed \<Longrightarrow> m \<in> set names \<Longrightarrow>
   sheets w m = Some g \<Longrightarrow> sheets w' m = Some (mark_posted g (due_rows env g))"
proof (induction names arbitrary: w)
  case Nil
  then show ?case by simp
next
  case (Cons n rest)
  from Cons.prems(1) have dist: "distinct rest" and notin: "n \<notin> set rest"
    by simp_all
  from Cons.prems(2) show ?case
  proof (cases rule: tabs_loop_Cons_cases)
    case missing
    with Cons.prems(4) show ?thesis by simp
  next
    case (unread data e)
    with Cons.prems(4) show ?thesis by simp
  next
    case (read data)
    let ?w2 = "fst (rows_loop env s n data 1
                 (emit (GetValues n) (emit (Logged (Searching n)) w)))"
    show ?thesis
    proof (cases "m = n")
      case True
      with Cons.prems(6) read(1) have g: "data = g" by simp
      from Cons.prems(3) have "\<not> list_ex row_error (trace ?w2)"
        using tabs_loop_keeps_error [OF read(3)] by blast
      then have "sheets ?w2 n = Some (mark_posted data (due_rows env data))"
        using read(1) by (simp add: sheets_rows_loop sheets_emit due_rows_def)
      moreover have "sheets w' n = sheets ?w2 n"
        using read(3) notin by (rule sheets_tabs_loop_other)
      ultimately show ?thesis using True g by simp
    next
      case False
      with Cons.prems(5) have "m \<in> set rest" by simp
      moreover from False Cons.prems(6) have "sheets ?w2 m = Some g"
        by (simp add: sheets_rows_loop_other sheets_emit)
      ultimately show ?thesis
        using Cons.IH [OF dist read(3) Cons.prems(3) Cons.prems(4)] by blast
    qed
  qed
qed

lemma tabs_loop_append:
  "tabs_loop env s (xs @ ys) w =
     (case tabs_loop env s xs w of
        (w1, Completed) \<Rightarrow> tabs_loop env s ys w1
      | (w1, Aborted err) \<Rightarrow> (w1, Aborted err))"
  by (induction xs arbitrary: w)
     (auto simp: Let_def split: option.splits prod.splits outcome.splits)

lemma prefix_tabs_loop:
  "tabs_loop env s names w = (w', out) \<Longrightarrow> prefix (trace w) (trace w')"
proof (induction names arbitrary: w)
  case Nil
  then show ?case by simp
next
  case (Cons n rest)
  from Cons.prems show ?case
  proof (cases rule: tabs_loop_Cons_cases)
    case missing
    then show ?thesis by (simp add: trace_emit)
  next
    case (unread data e)
    then show ?thesis by (simp add: trace_emit)
  next
    case (read data)
    let ?w1 = "emit (GetValues n) (emit (Logged (Searching n)) w)"
    have "prefix (trace w) (trace ?w1)"
      by (simp add: trace_emit)
    also have "prefix (trace ?w1) (trace (fst (rows_loop env s n data 1 ?w1)))"
      by (rule prefix_rows_loop)
    also have "prefix (trace (fst (rows_loop env s n data 1 ?w1))) (trace w')"
      using read(3) by (rule Cons.IH)
    finally show ?thesis .
  qed
qed

lemma tabs_loop_completes:
  "distinct names \<Longrightarrow> tabs_loop env s names w = (w', out) \<Longrightarrow>
   \<forall>m\<in>set names. sheets w m \<noteq> None \<and> (\<forall>h. throws env h (GetValues m) = None) \<Longrightarrow>
   out = Completed"
proof (induction names arbitrary: w)
  case Nil
  then show ?case by simp
next
  case (Cons n rest)
  from Cons.prems(2) show ?case
  proof (cases rule: tabs_loop_Cons_cases)
    case missing
    with Cons.prems(3) show ?thesis by simp
  next
    case (unread data e)
    with Cons.prems(3) show ?thesis by simp
  next
    case (read data)
    let ?w2 = "fst (rows_loop env s n data 1
                 (emit (GetValues n) (emit (Logged (Searching n)) w)))"
    from Cons.prems(1) have dist: "distinct rest" and notin: "n \<notin> set rest"
      by simp_all
    have "\<forall>m\<in>set rest. sheets ?w2 m \<noteq> None \<and> (\<forall>h. throws env h (GetValues m) = None)"
    proof
      fix m
      assume m: "m \<in> set rest"
      with notin have "m \<noteq> n" by auto
      then have "sheets ?w2 m = sheets w m"
        by (simp add: sheets_rows_loop_other sheets_emit)
      with Cons.prems(3) m
      show "sheets ?w2 m \<noteq> None \<and> (\<forall>h. throws env h (GetValues m) = None)"
        by simp
    qed
    with Cons.IH [OF dist read(3)] show ?thesis .
  qed
qed

subsection \<open>The whole run\<close>

lemma postToBluesky_Completed:
  assumes "postToBluesky env w = (w', Completed)"
  obtains s where "JSON_session env (auth_body env) = Some s"
    and "tabs_loop env s SHEET_NAMES
           (emit (CreateSession BSKY_HANDLE APP_PASSWORD) (emit (OpenById SHEET_ID) w))
         = (w', Completed)"
  using assms
  by (auto simp: postToBluesky_def Let_def split: option.splits)

lemma track_postToBluesky:
  assumes "postToBluesky env w = (w', out)" and "foldl track st (trace w) = (t, r, acc)"
  shows "\<exists>k t' r'. k \<le> length SHEET_NAMES \<and> (out = Completed \<longrightarrow> k = length SHEET_NAMES) \<and>
     foldl track st (trace w') =
       (t', r', acc @ concat (map (\<lambda>n. tab_rows env n (the (sheets w n))) (take k SHEET_NAMES)))"
proof (cases "out = Completed")
  case True
  with assms(1) obtain s where
    run: "tabs_loop env s SHEET_NAMES
           (emit (CreateSession BSKY_HANDLE APP_PASSWORD) (emit (OpenById SHEET_ID) w))
         = (w', out)"
    by (auto elim: postToBluesky_Completed)
  have d: "distinct SHEET_NAMES" by (simp add: SHEET_NAMES_def)
  from assms(2) have
    "foldl track st (trace (emit (CreateSession BSKY_HANDLE APP_PASSWORD)
        (emit (OpenById SHEET_ID) w))) = (t, r, acc)"
    by (simp add: trace_emit)
  from track_tabs_loop [OF d run this] show ?thesis
    by (simp add: sheets_emit)
next
  case False
  show ?thesis
  proof (cases "\<exists>s. JSON_session env (auth_body env) = Some s \<and>
      throws env (trace w) (OpenById SHEET_ID) = None \<and>
      throws env (trace w @ [OpenById SHEET_ID]) (CreateSession BSKY_HANDLE APP_PASSWORD) = None")
    case True
    then obtain s where s: "JSON_session env (auth_body env) = Some s"
      and o: "throws env (trace w) (OpenById SHEET_ID) = None"
      and c: "throws env (trace w @ [OpenById SHEET_ID])
                (CreateSession BSKY_HANDLE APP_PASSWORD) = None"
      by blast
    with assms(1) have
      run: "tabs_loop env s SHEET_NAMES
           (emit (CreateSession BSKY_HANDLE APP_PASSWORD) (emit (OpenById SHEET_ID) w))
         = (w', out)"
      by (simp add: postToBluesky_def Let_def trace_emit)
    have d: "distinct SHEET_NAMES" by (simp add: SHEET_NAMES_def)
    from assms(2) have
      "foldl track st (trace (emit (CreateSession BSKY_HANDLE APP_PASSWORD)
          (emit (OpenById SHEET_ID) w))) = (t, r, acc)"
      by (simp add: trace_emit)
    from track_tabs_loop [OF d run this] show ?thesis
      by (simp add: sheets_emit)
  next
    case False
    with assms have "foldl track st (trace w') = (t, r, acc) \<and> out \<noteq> Completed"
      by (auto simp: postToBluesky_def Let_def trace_emit split: option.splits)
    then show ?thesis
      by (intro exI [of _ 0]) simp
  qed
qed

lemma due_rows_in_range: "i \<in> set (due_rows env g) \<Longrightarrow> i < length g"
  by (simp add: due_rows_def)

lemma distinct_tab_rows: "distinct (tab_rows env n g)"
  by (simp add: tab_rows_def due_rows_def distinct_map inj_on_def)

lemma set_tab_rows: "set (tab_rows env n g) = (\<lambda>i. (n, Suc i)) ` set (due_rows env g)"
  by (simp add: tab_rows_def)

lemma marked_not_due:
  assumes "i \<in> set (due_rows env g)"
  shows "cell (mark_posted g (due_rows env g) ! i) 0 = JString ''Posted''"
    and "\<not> qualifies other z td (mark_posted g (due_rows env g)) i"
proof -
  have "\<forall>j\<in>set (due_rows env g). j < length g"
    by (simp add: due_rows_in_range)
  from mark_posted_status [OF this assms]
  show "cell (mark_posted g (due_rows env g) ! i) 0 = JString ''Posted''" .
  then show "\<not> qualifies other z td (mark_posted g (due_rows env g)) i"
    by (simp add: qualifies_iff)
qed

lemma not_due_after_mark:
  "i \<in> set (due_rows env g) \<Longrightarrow> i \<notin> set (due_rows env' (mark_posted g (due_rows env g)))"
  using marked_not_due(2) [of i env g] by (simp add: due_rows_def)

lemma steps_prefix: "prefix a b \<Longrightarrow> prefix (steps a) (steps b)"
  by (auto simp: prefix_def steps_append)

lemma run_from_row:
  assumes names: "SHEET_NAMES = earlier @ sheetName # later"
    and session: "JSON_session env (auth_body env) = Some s"
    and opened: "throws env (trace w) (OpenById SHEET_ID) = None"
    and authed: "throws env (trace w @ [OpenById SHEET_ID])
                   (CreateSession BSKY_HANDLE APP_PASSWORD) = None"
    and earlier: "tabs_loop env s earlier
                    (emit (CreateSession BSKY_HANDLE APP_PASSWORD) (emit (OpenById SHEET_ID) w))
                  = (wb, Completed)"
    and data: "sheets w sheetName = Some data"
    and read: "throws env (trace wb @ [Logged (Searching sheetName)]) (GetValues sheetName) = None"
    and i: "1 \<le> i" "i < length data"
    and wi: "wi = rows_before env s sheetName data i
                    (emit (GetValues sheetName) (emit (Logged (Searching sheetName)) wb))"
  shows "postToBluesky env w =
           tabs_loop env s later (fst (rows_loop env s sheetName data i wi))"
    and "\<exists>g. sheets wi sheetName = Some g \<and> i < length g \<and> g ! i = data ! i"
    and "\<forall>n\<in>set later. sheets (fst (rows_loop env s sheetName data i wi)) n = sheets w n"
    and "sheetName \<notin> set later"
proof -
  let ?auth = "emit (CreateSession BSKY_HANDLE APP_PASSWORD) (emit (OpenById SHEET_ID) w)"
  let ?tab = "emit (GetValues sheetName) (emit (Logged (Searching sheetName)) wb)"
  have "distinct SHEET_NAMES"
    by (simp add: SHEET_NAMES_def)
  with names have dist: "distinct (earlier @ sheetName # later)"
    by simp
  then have not_earlier: "sheetName \<notin> set earlier" and not_later: "sheetName \<notin> set later"
    and apart: "\<And>n. n \<in> set later \<Longrightarrow> n \<notin> set earlier \<and> n \<noteq> sheetName"
    by auto
  from not_later show "sheetName \<notin> set later" .
  from sheets_tabs_loop_other [OF earlier not_earlier] data
  have data_b: "sheets wb sheetName = Some data"
    by (simp add: sheets_emit)
  have start: "rows_loop env s sheetName data 1 ?tab = rows_loop env s sheetName data i wi"
    using i unfolding wi by (intro rows_loop_from_row) simp_all
  have "postToBluesky env w = tabs_loop env s (earlier @ sheetName # later) ?auth"
    using session opened authed names
    by (simp add: postToBluesky_def Let_def trace_emit)
  also have "\<dots> = tabs_loop env s (sheetName # later) wb"
    by (simp add: tabs_loop_append earlier)
  also have "\<dots> = tabs_loop env s later (fst (rows_loop env s sheetName data 1 ?tab))"
    using data_b read rows_loop_Completed [of env s sheetName data 1 ?tab]
    by (cases "rows_loop env s sheetName data 1 ?tab")
       (simp add: Let_def sheets_emit trace_emit)
  finally show "postToBluesky env w =
           tabs_loop env s later (fst (rows_loop env s sheetName data i wi))"
    by (simp only: start)
  have "sheets ?tab sheetName = Some data"
    by (simp add: sheets_emit data_b)
  from rows_before_keeps_row [OF this i(2) order_refl, of env s data]
  show "\<exists>g. sheets wi sheetName = Some g \<and> i < length g \<and> g ! i = data ! i"
    by (simp add: wi)
  show "\<forall>n\<in>set later. sheets (fst (rows_loop env s sheetName data i wi)) n = sheets w n"
  proof
    fix n
    assume "n \<in> set later"
    with apart have n: "n \<notin> set earlier" "n \<noteq> sheetName"
      by simp_all
    from sheets_tabs_loop_other [OF earlier n(1)] have "sheets wb n = sheets w n"
      by (simp add: sheets_emit)
    with n(2) show "sheets (fst (rows_loop env s sheetName data i wi)) n = sheets w n"
      by (simp add: sheets_rows_loop_other wi sheets_rows_before_other sheets_emit)
  qed
qed

lemma rest_of_run:
  assumes run: "tabs_loop env s later (fst (rows_loop env s n data i w)) = (w', out)"
    and due: "i < length data" "qualifies (other_dates env) (tz_offset env) (today env) data i"
    and row: "sheets (postRow env s n data i w) n = Some g" "i < length g"
    and later: "distinct later" "n \<notin> set later"
    and same: "\<forall>m\<in>set later. sheets (fst (rows_loop env s n data i w)) m = sheets w0 m"
  shows "prefix (trace (postRow env s n data i w)) (trace w')"
    and "prefix (steps (trace (postRow env s n data i w)) @
           concat (map (row_steps data)
             (filter (qualifies (other_dates env) (tz_offset env) (today env) data)
                [i + 1..<length data])))
          (steps (trace w'))"
    and "out = Completed \<longrightarrow>
         steps (trace w') =
           steps (trace (postRow env s n data i w)) @
           concat (map (row_steps data)
             (filter (qualifies (other_dates env) (tz_offset env) (today env) data)
                [i + 1..<length data])) @
           concat (map (\<lambda>m. tab_steps env m (the (sheets w0 m))) later)"
    and "\<exists>g'. sheets w' n = Some g' \<and> i < length g' \<and> g' ! i = g ! i"
    and "(\<forall>m\<in>set later. sheets w0 m \<noteq> None \<and> (\<forall>h. throws env h (GetValues m) = None))
         \<longrightarrow> out = Completed"
proof -
  let ?p = "postRow env s n data i w"
  let ?w2 = "fst (rows_loop env s n data (Suc i) ?p)"
  from due have step: "rows_loop env s n data i w = rows_loop env s n data (Suc i) ?p"
    by (simp add: rows_loop_step)
  with run have run2: "tabs_loop env s later ?w2 = (w', out)"
    by simp
  have p2: "prefix (trace ?p) (trace ?w2)"
    by (rule prefix_rows_loop)
  have p3: "prefix (trace ?w2) (trace w')"
    using run2 by (rule prefix_tabs_loop)
  from p2 p3 show "prefix (trace ?p) (trace w')"
    by (rule prefix_order.trans)
  have rows: "steps (trace ?w2) = steps (trace ?p) @
           concat (map (row_steps data)
             (filter (qualifies (other_dates env) (tz_offset env) (today env) data)
                [i + 1..<length data]))"
    by (simp add: steps_rows_loop)
  from steps_prefix [OF p3] show "prefix (steps (trace ?p) @
           concat (map (row_steps data)
             (filter (qualifies (other_dates env) (tz_offset env) (today env) data)
                [i + 1..<length data])))
          (steps (trace w'))"
    by (simp only: rows)
  from same have same2: "\<forall>m\<in>set later. sheets ?w2 m = sheets w0 m"
    by (simp only: step)
  have meq: "map (\<lambda>m. tab_steps env m (the (sheets ?w2 m))) later =
             map (\<lambda>m. tab_steps env m (the (sheets w0 m))) later"
  proof (rule map_cong [OF refl])
    fix m
    assume "m \<in> set later"
    with same2 have "sheets ?w2 m = sheets w0 m" by blast
    then show "tab_steps env m (the (sheets ?w2 m)) = tab_steps env m (the (sheets w0 m))"
      by (simp only:)
  qed
  from steps_tabs_loop_any [OF later(1) run2] obtain rest where
    "steps (trace ?w2) @ concat (map (\<lambda>m. tab_steps env m (the (sheets ?w2 m))) later) =
       steps (trace w') @ rest" and "out = Completed \<longrightarrow> rest = []"
    by blast
  then show "out = Completed \<longrightarrow>
         steps (trace w') =
           steps (trace ?p) @
           concat (map (row_steps data)
             (filter (qualifies (other_dates env) (tz_offset env) (today env) data)
                [i + 1..<length data])) @
           concat (map (\<lambda>m. tab_steps env m (the (sheets w0 m))) later)"
    by (auto simp only: meq rows append_assoc append_Nil2)
  from rows_loop_keeps_row [OF row, of "Suc i" env s data]
  obtain g2 where g2: "sheets ?w2 n = Some g2" "i < length g2" "g2 ! i = g ! i"
    by auto
  from sheets_tabs_loop_other [OF run2 later(2)] g2
  show "\<exists>g'. sheets w' n = Some g' \<and> i < length g' \<and> g' ! i = g ! i"
    by simp
  show "(\<forall>m\<in>set later. sheets w0 m \<noteq> None \<and> (\<forall>h. throws env h (GetValues m) = None))
         \<longrightarrow> out = Completed"
  proof
    assume "\<forall>m\<in>set later. sheets w0 m \<noteq> None \<and> (\<forall>h. throws env h (GetValues m) = None)"
    with same2 have
      "\<forall>m\<in>set later. sheets ?w2 m \<noteq> None \<and> (\<forall>h. throws env h (GetValues m) = None)"
      by simp
    with tabs_loop_completes [OF later(1) run2] show "out = Completed" .
  qed
qed

subsection \<open>Dates of the examples\<close>

lemma parse_new_year: "Date_parse other ''2024-01-01'' = Some 1704067200000"
  by (simp add: Date_parse_def is_digit_def MakeDay_def DayFromYear_def DaysInMonth_def
      InLeapYear_def msPerDay_def upt_conv_Cons)

lemma second_of_january: "MakeDay 2024 1 2 * msPerDay = 1704153600000"
  by (simp add: MakeDay_def DayFromYear_def msPerDay_def)

lemma new_year_is_due:
  assumes "\<bar>z\<bar> \<le> msPerDay"
  shows "date_le (setHours0 z (Some 1704067200000)) (TimeClip (1704153600000 - z))"
proof -
  define q where "q = z div msPerDay"
  have "(1704067200000 + z) div msPerDay = 19723 + q"
    by (simp add: q_def msPerDay_def)
  then have mid: "(1704067200000 + z) div msPerDay * msPerDay - z = (19723 + q) * msPerDay - z"
    by simp
  from assms have "- 1 \<le> q" and "q \<le> 1"
    by (simp_all add: q_def msPerDay_def)
  with assms mid show ?thesis
    by (simp add: TimeClip_def msPerDay_def)
qed

lemma today_engine: "today (engine policy) = Some 1704150000000"
  by (simp add: today_def engine_def TimeClip_def msPerDay_def)

lemma hello_row_due:
  "qualifies (other_dates (engine policy)) (tz_offset (engine policy)) (today (engine policy))
     [header, hello_row] 1"
  by (simp add: qualifies_iff today_engine hello_row_def cell_def parse_new_year)
     (simp add: engine_def TimeClip_def msPerDay_def)

lemma due_rows_share: "due_rows (engine policy) [header, hello_row] = [1]"
  using hello_row_due [of policy] by (simp add: due_rows_def upt_conv_Cons)

lemma due_rows_generation: "due_rows env [header] = []"
  by (simp add: due_rows_def)

lemma sample_run:
  "postToBluesky (engine never) book =
     (\<lparr>sheets = [''Peak Generation'' \<mapsto> [header],
                 ''Peak Share'' \<mapsto> [header, hello_row [0 := JString ''Posted'']]],
       trace = [OpenById SHEET_ID, CreateSession BSKY_HANDLE APP_PASSWORD,
                Logged (Searching ''Peak Share''), GetValues ''Peak Share'',
                Logged (Posting 2),
                CreateRecord (JString ''jwt'')
                  \<lparr>repo = JString ''did:plc:me'', collection = ''app.bsky.feed.post'',
                   record_body = \<lparr>type_tag = ''app.bsky.feed.post'',
                                  post_text = JString ''Hello world'',
                                  createdAt = ''2024-01-02T12:00:00.000Z''\<rparr>\<rparr>,
                SetValue ''Peak Share'' 2 1 (JString ''Posted''),
                Logged (Searching ''Peak Generation''), GetValues ''Peak Generation'']\<rparr>,
      Completed)"
proof -
  have due: "qualifies reject 3600000 (Some 1704150000000) [header, hello_row] (Suc 0)"
    using hello_row_due [of never] by (simp add: today_engine) (simp add: engine_def)
  have len: "length hello_row = 9" and content: "cell hello_row 8 = JString ''Hello world''"
    by (simp_all add: hello_row_def cell_def)
  show ?thesis
    by (simp add: postToBluesky_def book_def engine_def read_session_def the_session_def
        clock_def emit_def Let_def rows_loop_step rows_loop_done today_engine [unfolded engine_def]
        due postRow_def set_value_def write_cell_def postRecord_def SHEET_NAMES_def
        len content numeral_2_eq_2)
qed

lemma ledger_rows_due:
  "qualifies reject 3600000 (Some 1704150000000) [header, first_row, hello_row, last_row] (Suc 0)"
  "qualifies reject 3600000 (Some 1704150000000) [header, first_row, hello_row, last_row]
     (Suc (Suc 0))"
  "qualifies reject 3600000 (Some 1704150000000) [header, first_row, hello_row, last_row]
     (Suc (Suc (Suc 0)))"
  "qualifies reject 3600000 (Some 1704150000000) [header, other_row] (Suc 0)"
  by (simp_all add: qualifies_iff first_row_def hello_row_def last_row_def other_row_def cell_def
      parse_new_year TimeClip_def msPerDay_def)

lemma ledger_cells:
  "cell first_row 8 = JString ''First''" "cell hello_row 8 = JString ''Hello world''"
  "cell last_row 8 = JString ''Last''" "cell other_row 8 = JString ''Other''"
  "length first_row = 9" "length hello_row = 9" "length last_row = 9" "length other_row = 9"
  by (simp_all add: first_row_def hello_row_def last_row_def other_row_def cell_def)

lemma four_eq: "4 = Suc (Suc (Suc (Suc 0)))"
  by simp

lemmas run_simps =
  postToBluesky_def engine_def read_session_def the_session_def clock_def emit_def Let_def
  rows_loop_step rows_loop_done today_engine [unfolded engine_def] ledger_rows_due ledger_cells
  postRow_def set_value_def write_cell_def postRecord_def SHEET_NAMES_def steps_def
  numeral_2_eq_2 numeral_3_eq_3 four_eq

lemma ledger_due:
  "0 < k \<Longrightarrow> k < 4 \<Longrightarrow>
   qualifies (other_dates (engine p)) (tz_offset (engine p)) (today (engine p))
     [header, first_row, hello_row, last_row] k"
  "due_rows (engine p) [header, other_row] = [1]"
proof -
  have engine: "other_dates (engine p) = reject" "tz_offset (engine p) = 3600000"
    by (simp_all add: engine_def)
  show "qualifies (other_dates (engine p)) (tz_offset (engine p)) (today (engine p))
     [header, first_row, hello_row, last_row] k" if "0 < k" and "k < 4"
  proof -
    from that have "k = Suc 0 \<or> k = Suc (Suc 0) \<or> k = Suc (Suc (Suc 0))"
      by arith
    then show ?thesis
      using ledger_rows_due(1-3) by (auto simp: today_engine engine)
  qed
  show "due_rows (engine p) [header, other_row] = [1]"
    using ledger_rows_due(4) by (simp add: due_rows_def today_engine engine)
qed

section \<open>The claims\<close>

text \<open>
  Claim C1, as the code has it. For every row of the data, shouldPost returns
  \<^verbatim>\<open>true\<close> if and only if the content cell (index 8) is truthy, the status cell
  (index 0) is the string "Ready", and the scheduled date (index 1), set to local
  midnight, is a valid date not later than \<^verbatim>\<open>today\<close>; and the caller's \<^verbatim>\<open>if\<close> takes
  the row exactly then.
\<close>

theorem shouldPost_true_iff:
  assumes "i < length data"
  shows "(shouldPost other z td data i = Some (JBoolean True) \<longleftrightarrow>
            truthy (cell (data ! i) 8) \<and> cell (data ! i) 0 = JString ''Ready'' \<and>
            date_le (setHours0 z (newDate other (cell (data ! i) 1))) td) \<and>
         (qualifies other z td data i \<longleftrightarrow>
            shouldPost other z td data i = Some (JBoolean True))"
proof -
  let ?c = "cell (data ! i) 8"
  have val: "shouldPost other z td data i =
     Some (if \<not> truthy ?c then ?c
           else if \<not> loose_eq_Ready (cell (data ! i) 0) then JBoolean False
           else JBoolean (date_le (setHours0 z (newDate other (cell (data ! i) 1))) td))"
    using assms by (rule shouldPost_value)
  have falsy: "\<not> truthy ?c \<Longrightarrow> ?c \<noteq> JBoolean True"
    by auto
  have first: "shouldPost other z td data i = Some (JBoolean True) \<longleftrightarrow>
            truthy ?c \<and> cell (data ! i) 0 = JString ''Ready'' \<and>
            date_le (setHours0 z (newDate other (cell (data ! i) 1))) td"
    using falsy by (simp add: val loose_eq_Ready_iff)
  have "qualifies other z td data i \<longleftrightarrow>
            shouldPost other z td data i = Some (JBoolean True)"
    using assms by (simp add: first qualifies_iff)
  with first show ?thesis by blast
qed

theorem shouldPost_true_iff_witness:
  "(1::nat) < length [[], [JString ''Ready'', JDate (Some 0), JString [], JString [], JString [],
        JString [], JString [], JString [], JString ''Hello'']] \<and>
   shouldPost reject 0 (Some 0)
     [[], [JString ''Ready'', JDate (Some 0), JString [], JString [], JString [],
        JString [], JString [], JString [], JString ''Hello'']] 1 = Some (JBoolean True) \<and>
   qualifies reject 0 (Some 0)
     [[], [JString ''Ready'', JDate (Some 0), JString [], JString [], JString [],
        JString [], JString [], JString [], JString ''Hello'']] 1"
proof -
  let ?d = "[[], [JString ''Ready'', JDate (Some 0), JString [], JString [], JString [],
        JString [], JString [], JString [], JString ''Hello'']]"
  have len: "(1::nat) < length ?d" by simp
  have rhs: "truthy (cell (?d ! 1) 8) \<and> cell (?d ! 1) 0 = JString ''Ready'' \<and>
            date_le (setHours0 0 (newDate reject (cell (?d ! 1) 1))) (Some 0)"
    by (simp add: cell_def TimeClip_def msPerDay_def)
  from shouldPost_true_iff [OF len, of reject 0 "Some 0"] rhs len show ?thesis
    by blast
qed

text \<open>
  Claim C1 as stated fails: a content cell holding the number 0 is not empty, the
  status is "Ready" and the date is due, yet shouldPost returns 0, not \<^verbatim>\<open>true\<close>.
\<close>

theorem shouldPost_nonempty_content_counterexample:
  "\<not> cell_empty (cell [JString ''Ready'', JDate (Some 0), JString [], JString [], JString [],
        JString [], JString [], JString [], JNumber 0] 8) \<and>
   cell [JString ''Ready'', JDate (Some 0), JString [], JString [], JString [],
        JString [], JString [], JString [], JNumber 0] 0 = JString ''Ready'' \<and>
   date_le (setHours0 0 (newDate reject (cell [JString ''Ready'', JDate (Some 0), JString [],
        JString [], JString [], JString [], JString [], JString [], JNumber 0] 1))) (Some 0) \<and>
   shouldPost reject 0 (Some 0)
     [[], [JString ''Ready'', JDate (Some 0), JString [], JString [], JString [],
        JString [], JString [], JString [], JNumber 0]] 1 = Some (JNumber 0) \<and>
   shouldPost reject 0 (Some 0)
     [[], [JString ''Ready'', JDate (Some 0), JString [], JString [], JString [],
        JString [], JString [], JString [], JNumber 0]] 1 \<noteq> Some (JBoolean True)"
  by (simp add: shouldPost_def cell_def cell_empty_def js_and_def TimeClip_def msPerDay_def)

text \<open>
  Claim C2, as the code has it. For every row whose content cell is empty (the empty
  string, or a column the row lacks), shouldPost returns that falsy content itself,
  whatever the status and the date, and the caller's \<^verbatim>\<open>if\<close> skips the row.
\<close>

theorem shouldPost_empty_content:
  assumes "i < length data" and "cell_empty (cell (data ! i) 8)"
  shows "shouldPost other z td data i = Some (cell (data ! i) 8) \<and>
         \<not> truthy (cell (data ! i) 8) \<and> \<not> qualifies other z td data i"
proof -
  from assms(2) have falsy: "\<not> truthy (cell (data ! i) 8)"
    by (auto simp: cell_empty_def)
  with assms(1) show ?thesis
    by (simp add: shouldPost_value qualifies_iff)
qed

theorem shouldPost_empty_content_witness:
  "shouldPost reject 0 (Some 0)
     [[], [JString ''Ready'', JDate (Some 0), JString [], JString [], JString [],
        JString [], JString [], JString [], JString []]] 1 = Some (JString []) \<and>
   \<not> qualifies reject 0 (Some 0)
     [[], [JString ''Ready'', JDate (Some 0), JString [], JString [], JString [],
        JString [], JString [], JString [], JString []]] 1"
  using shouldPost_empty_content [of 1 "[[], [JString ''Ready'', JDate (Some 0), JString [],
     JString [], JString [], JString [], JString [], JString [], JString []]]" reject 0 "Some 0"]
  by (simp add: cell_def cell_empty_def)

text \<open>
  Claim C2 as stated fails: a content of three spaces is blank, yet with status
  "Ready" and a due date shouldPost returns \<^verbatim>\<open>true\<close>.
\<close>

theorem shouldPost_blank_content_counterexample:
  "blank ''   '' \<and>
   shouldPost reject 0 (Some 0)
     [[], [JString ''Ready'', JDate (Some 0), JString [], JString [], JString [],
        JString [], JString [], JString [], JString ''   '']] 1 = Some (JBoolean True)"
  by (simp add: blank_def shouldPost_def cell_def js_and_def TimeClip_def msPerDay_def)

text \<open>
  Claim C3, as the code has it. For every row with status "Ready", truthy content and
  a valid scheduled date whose local midnight is \<open>t\<close>, and with \<^verbatim>\<open>today\<close> at \<open>u\<close>:
  shouldPost returns \<^verbatim>\<open>true\<close> when \<open>t = u\<close> and when \<open>t < u\<close>, and \<^verbatim>\<open>false\<close> when
  \<open>t\<close> is one day after \<open>u\<close> (and whenever \<open>u < t\<close>).
\<close>

theorem shouldPost_by_date:
  assumes "i < length data"
    and "cell (data ! i) 0 = JString ''Ready''"
    and "truthy (cell (data ! i) 8)"
    and "setHours0 z (newDate other (cell (data ! i) 1)) = Some t"
  shows "(t = u \<longrightarrow> shouldPost other z (Some u) data i = Some (JBoolean True)) \<and>
         (t < u \<longrightarrow> shouldPost other z (Some u) data i = Some (JBoolean True)) \<and>
         (t = u + msPerDay \<longrightarrow> shouldPost other z (Some u) data i = Some (JBoolean False)) \<and>
         (u < t \<longrightarrow> shouldPost other z (Some u) data i = Some (JBoolean False))"
  using assms by (simp add: shouldPost_value msPerDay_def)

theorem shouldPost_by_date_witness:
  "shouldPost reject 3600000 (Some 1704150000000)
     [[], [JString ''Ready'', JString ''2024-01-02'', JString [], JString [], JString [],
        JString [], JString [], JString [], JString ''Hello'']] 1 = Some (JBoolean True) \<and>
   shouldPost reject 3600000 (Some 1704150000000)
     [[], [JString ''Ready'', JDate (Some 1704100000000), JString [], JString [], JString [],
        JString [], JString [], JString [], JString ''Hello'']] 1 = Some (JBoolean True) \<and>
   shouldPost reject 3600000 (Some 1704150000000)
     [[], [JString ''Ready'', JDate (Some 1704236400000), JString [], JString [], JString [],
        JString [], JString [], JString [], JString ''Hello'']] 1 = Some (JBoolean False)"
proof -
  let ?row = "\<lambda>d. [JString ''Ready'', d, JString [], JString [], JString [],
        JString [], JString [], JString [], JString ''Hello'']"
  have a: "setHours0 3600000 (newDate reject (cell (?row (JString ''2024-01-02'')) 1))
             = Some 1704150000000"
    by (simp add: cell_def TimeClip_def msPerDay_def Date_parse_def is_digit_def MakeDay_def
        DayFromYear_def DaysInMonth_def InLeapYear_def upt_conv_Cons)
  have b: "setHours0 3600000 (newDate reject (cell (?row (JDate (Some 1704100000000))) 1))
             = Some 1704063600000"
    by (simp add: cell_def TimeClip_def msPerDay_def)
  have c: "setHours0 3600000 (newDate reject (cell (?row (JDate (Some 1704236400000))) 1))
             = Some 1704236400000"
    by (simp add: cell_def TimeClip_def msPerDay_def)
  have 1: "shouldPost reject 3600000 (Some 1704150000000) [[], ?row (JString ''2024-01-02'')] 1
            = Some (JBoolean True)"
    using shouldPost_by_date [of 1 "[[], ?row (JString ''2024-01-02'')]" 3600000 reject
        1704150000000 1704150000000] a
    by (simp add: cell_def)
  have 2: "shouldPost reject 3600000 (Some 1704150000000)
             [[], ?row (JDate (Some 1704100000000))] 1 = Some (JBoolean True)"
    using shouldPost_by_date [of 1 "[[], ?row (JDate (Some 1704100000000))]" 3600000 reject
        1704063600000 1704150000000] b
    by (simp add: cell_def)
  have 3: "shouldPost reject 3600000 (Some 1704150000000)
             [[], ?row (JDate (Some 1704236400000))] 1 = Some (JBoolean False)"
    using shouldPost_by_date [of 1 "[[], ?row (JDate (Some 1704236400000))]" 3600000 reject
        1704236400000 1704150000000] c
    by (simp add: cell_def msPerDay_def)
  from 1 2 3 show ?thesis by simp
qed

text \<open>
  Claim C3 as stated fails: with status "Ready", a content cell that is not empty
  (it holds the boolean \<^verbatim>\<open>false\<close>) and a scheduled date equal to \<^verbatim>\<open>today\<close>, shouldPost
  returns \<^verbatim>\<open>false\<close>.
\<close>

theorem shouldPost_false_content_counterexample:
  "\<not> cell_empty (cell [JString ''Ready'', JDate (Some 86400000), JString [], JString [],
        JString [], JString [], JString [], JString [], JBoolean False] 8) \<and>
   cell [JString ''Ready'', JDate (Some 86400000), JString [], JString [], JString [],
        JString [], JString [], JString [], JBoolean False] 0 = JString ''Ready'' \<and>
   setHours0 0 (newDate reject (cell [JString ''Ready'', JDate (Some 86400000), JString [],
        JString [], JString [], JString [], JString [], JString [], JBoolean False] 1))
     = Some 86400000 \<and>
   shouldPost reject 0 (Some 86400000)
     [[], [JString ''Ready'', JDate (Some 86400000), JString [], JString [], JString [],
        JString [], JString [], JString [], JBoolean False]] 1 = Some (JBoolean False)"
  by (simp add: shouldPost_def cell_def cell_empty_def js_and_def TimeClip_def msPerDay_def)

text \<open>
  Claim C4. A run comes to a due row \<open>i\<close> of a tab in state \<open>wi\<close>: the spreadsheet
  has opened, the session has been obtained, the tabs before this one have been
  worked through, the tab has been read as \<open>data\<close> and its rows below \<open>i\<close> have had
  their turn. If the post request for the row then throws an error with text \<open>e\<close>:
  the error is caught, the row's events being the announcement, the request and the
  log line "Error posting row " with the sheet position \<open>i + 1\<close>, ": " and \<open>e\<close>, and
  no cell is written; these events are part of the run's trace; every later row of
  the tab that shouldPost takes is announced and submitted after them, in order, and
  when the run completes so are the due rows of the tabs that follow; the run
  completes whenever the tabs that follow can be read; and at the end of the run
  row \<open>i\<close> of the tab, its status cell included, is as it was read.
\<close>

theorem posting_error_is_caught:
  assumes "postToBluesky env w = (w', out)"
    and "SHEET_NAMES = earlier @ sheetName # later"
    and "JSON_session env (auth_body env) = Some s"
    and "throws env (trace w) (OpenById SHEET_ID) = None"
    and "throws env (trace w @ [OpenById SHEET_ID])
           (CreateSession BSKY_HANDLE APP_PASSWORD) = None"
    and "tabs_loop env s earlier
           (emit (CreateSession BSKY_HANDLE APP_PASSWORD) (emit (OpenById SHEET_ID) w))
         = (wb, Completed)"
    and "sheets w sheetName = Some data"
    and "throws env (trace wb @ [Logged (Searching sheetName)]) (GetValues sheetName) = None"
    and "wi = rows_before env s sheetName data i
                (emit (GetValues sheetName) (emit (Logged (Searching sheetName)) wb))"
    and "1 \<le> i"
    and "i < length data"
    and "qualifies (other_dates env) (tz_offset env) (today env) data i"
    and "throws env (trace wi @ [Logged (Posting (i + 1))]) (post_request env s data i wi) = Some e"
  shows "postRow env s sheetName data i wi =
           wi\<lparr>trace := trace wi @ [Logged (Posting (i + 1)), post_request env s data i wi,
                                   Logged (ErrorPosting (i + 1) e)]\<rparr> \<and>
         render (ErrorPosting (i + 1) e) =
           ''Error posting row '' @ string_of_nat (i + 1) @ '': '' @ e \<and>
         sheets (postRow env s sheetName data i wi) = sheets wi \<and>
         prefix (trace wi @ [Logged (Posting (i + 1)), post_request env s data i wi,
                             Logged (ErrorPosting (i + 1) e)]) (trace w') \<and>
         prefix (steps (trace wi) @ row_steps data i @
                 concat (map (row_steps data)
                   (filter (qualifies (other_dates env) (tz_offset env) (today env) data)
                      [i + 1..<length data])))
           (steps (trace w')) \<and>
         (out = Completed \<longrightarrow>
            steps (trace w') =
              steps (trace wi) @ row_steps data i @
              concat (map (row_steps data)
                (filter (qualifies (other_dates env) (tz_offset env) (today env) data)
                   [i + 1..<length data])) @
              concat (map (\<lambda>n. tab_steps env n (the (sheets w n))) later)) \<and>
         ((\<forall>n\<in>set later. sheets w n \<noteq> None \<and> (\<forall>h. throws env h (GetValues n) = None))
            \<longrightarrow> out = Completed) \<and>
         (\<exists>g'. sheets w' sheetName = Some g' \<and> i < length g' \<and> g' ! i = data ! i)"
proof -
  let ?p = "postRow env s sheetName data i wi"
  from assms(13) have caught: "?p =
           wi\<lparr>trace := trace wi @ [Logged (Posting (i + 1)), post_request env s data i wi,
                                   Logged (ErrorPosting (i + 1) e)]\<rparr>"
    by (simp add: postRow_def post_request_def Let_def emit_def)
  then have tr: "trace ?p = trace wi @ [Logged (Posting (i + 1)), post_request env s data i wi,
                                   Logged (ErrorPosting (i + 1) e)]"
    and same: "sheets ?p = sheets wi"
    by simp_all
  have st: "steps (trace ?p) = steps (trace wi) @ row_steps data i"
    by (rule steps_postRow)
  note reach = run_from_row [OF assms(2-8) assms(10,11) assms(9)]
  from reach(1) assms(1) have
    run: "tabs_loop env s later (fst (rows_loop env s sheetName data i wi)) = (w', out)"
    by simp
  from reach(2) same obtain g where
    g: "sheets ?p sheetName = Some g" "i < length g" "g ! i = data ! i"
    by auto
  have "distinct SHEET_NAMES"
    by (simp add: SHEET_NAMES_def)
  with assms(2) have "distinct (earlier @ sheetName # later)"
    by simp
  then have later: "distinct later"
    by simp
  note rest = rest_of_run [OF run assms(11,12) g(1,2) later reach(4) reach(3)]
  from rest(1) have a: "prefix (trace wi @ [Logged (Posting (i + 1)),
      post_request env s data i wi, Logged (ErrorPosting (i + 1) e)]) (trace w')"
    by (simp only: tr)
  from rest(2) have b: "prefix (steps (trace wi) @ row_steps data i @
                 concat (map (row_steps data)
                   (filter (qualifies (other_dates env) (tz_offset env) (today env) data)
                      [i + 1..<length data])))
           (steps (trace w'))"
    by (simp only: st append_assoc)
  from rest(3) have c: "out = Completed \<longrightarrow>
            steps (trace w') =
              steps (trace wi) @ row_steps data i @
              concat (map (row_steps data)
                (filter (qualifies (other_dates env) (tz_offset env) (today env) data)
                   [i + 1..<length data])) @
              concat (map (\<lambda>n. tab_steps env n (the (sheets w n))) later)"
    by (simp only: st append_assoc)
  from rest(4) g(3) have d: "\<exists>g'. sheets w' sheetName = Some g' \<and> i < length g' \<and>
      g' ! i = data ! i"
    by auto
  have r: "render (ErrorPosting (i + 1) e) =
           ''Error posting row '' @ string_of_nat (i + 1) @ '': '' @ e"
    by simp
  note f = rest(5)
  from caught same r a b c d f show ?thesis
    by blast
qed

theorem posting_error_is_caught_witness:
  "snd (postToBluesky (engine hello_post_fails) ledger) = Completed \<and>
   steps (trace (fst (postToBluesky (engine hello_post_fails) ledger))) =
     [ReadTab ''Peak Share'',
      Announce 2, Submit (JString ''First''),
      Announce 3, Submit (JString ''Hello world''),
      Announce 4, Submit (JString ''Last''),
      ReadTab ''Peak Generation'',
      Announce 2, Submit (JString ''Other'')] \<and>
   filter row_error (trace (fst (postToBluesky (engine hello_post_fails) ledger))) =
     [Logged (ErrorPosting 3 ''Exception: Request failed'')] \<and>
   render (ErrorPosting 3 ''Exception: Request failed'') =
     ''Error posting row 3: Exception: Request failed'' \<and>
   sheets (fst (postToBluesky (engine hello_post_fails) ledger)) ''Peak Share'' =
     Some [header, first_row [0 := JString ''Posted''], hello_row,
           last_row [0 := JString ''Posted'']]"
proof -
  let ?env = "engine hello_post_fails"
  let ?data = "[header, first_row, hello_row, last_row]"
  let ?wb = "emit (CreateSession BSKY_HANDLE APP_PASSWORD) (emit (OpenById SHEET_ID) ledger)"
  let ?wi = "rows_before ?env the_session ''Peak Share'' ?data 2
               (emit (GetValues ''Peak Share'') (emit (Logged (Searching ''Peak Share'')) ?wb))"
  let ?w' = "fst (postToBluesky ?env ledger)"
  have completed: "snd (postToBluesky ?env ledger) = Completed"
    by (simp add: run_simps ledger_def)
  then have run: "postToBluesky ?env ledger = (?w', Completed)"
    by (simp add: prod_eq_iff)
  have names: "SHEET_NAMES = [] @ ''Peak Share'' # [''Peak Generation'']"
    by (simp add: SHEET_NAMES_def)
  have session: "JSON_session ?env (auth_body ?env) = Some the_session"
    by (simp add: engine_def read_session_def)
  have opened: "throws ?env (trace ledger) (OpenById SHEET_ID) = None"
    and authed: "throws ?env (trace ledger @ [OpenById SHEET_ID])
                   (CreateSession BSKY_HANDLE APP_PASSWORD) = None"
    and read: "throws ?env (trace ?wb @ [Logged (Searching ''Peak Share'')])
                 (GetValues ''Peak Share'') = None"
    by (simp_all add: engine_def)
  have earlier: "tabs_loop ?env the_session [] ?wb = (?wb, Completed)"
    by simp
  have data: "sheets ledger ''Peak Share'' = Some ?data"
    by (simp add: ledger_def)
  have fails: "throws ?env (trace ?wi @ [Logged (Posting (2 + 1))])
      (post_request ?env the_session ?data 2 ?wi) = Some ''Exception: Request failed''"
    by (simp add: engine_def post_request_def postRecord_def ledger_cells)
  note caught = posting_error_is_caught [OF run names session opened authed earlier data read
      refl _ _ _ fails]
  have "(1::nat) \<le> 2" and "(2::nat) < length ?data"
    and "qualifies (other_dates ?env) (tz_offset ?env) (today ?env) ?data 2"
    by (simp_all add: ledger_due)
  from caught [OF this] have
    "steps (trace ?w') =
       steps (trace ?wi) @ row_steps ?data 2 @
       concat (map (row_steps ?data)
         (filter (qualifies (other_dates ?env) (tz_offset ?env) (today ?env) ?data)
            [2 + 1..<length ?data])) @
       concat (map (\<lambda>n. tab_steps ?env n (the (sheets ledger n))) [''Peak Generation''])"
    by blast
  moreover have "steps (trace ?wi) =
      [ReadTab ''Peak Share'', Announce 2, Submit (JString ''First'')]"
    by (simp add: rows_before_def upt_conv_Cons run_simps ledger_def)
  moreover have "row_steps ?data 2 = [Announce 3, Submit (JString ''Hello world'')]"
    by (simp add: row_steps_def ledger_cells)
  moreover have "concat (map (row_steps ?data)
         (filter (qualifies (other_dates ?env) (tz_offset ?env) (today ?env) ?data)
            [2 + 1..<length ?data])) = [Announce 4, Submit (JString ''Last'')]"
    by (simp add: upt_conv_Cons ledger_due row_steps_def ledger_cells)
  moreover have "concat (map (\<lambda>n. tab_steps ?env n (the (sheets ledger n)))
      [''Peak Generation'']) =
      [ReadTab ''Peak Generation'', Announce 2, Submit (JString ''Other'')]"
    by (simp add: ledger_def tab_steps_def ledger_due row_steps_def ledger_cells)
  ultimately have order: "steps (trace ?w') =
     [ReadTab ''Peak Share'',
      Announce 2, Submit (JString ''First''),
      Announce 3, Submit (JString ''Hello world''),
      Announce 4, Submit (JString ''Last''),
      ReadTab ''Peak Generation'',
      Announce 2, Submit (JString ''Other'')]"
    by simp
  have errors: "filter row_error (trace ?w') =
     [Logged (ErrorPosting 3 ''Exception: Request failed'')]"
    by (simp add: run_simps ledger_def)
  have line: "render (ErrorPosting 3 ''Exception: Request failed'') =
     ''Error posting row 3: Exception: Request failed''"
    by simp
  have cells: "sheets ?w' ''Peak Share'' =
     Some [header, first_row [0 := JString ''Posted''], hello_row,
           last_row [0 := JString ''Posted'']]"
    by (simp add: run_simps ledger_def)
  from completed order errors line cells show ?thesis
    by simp
qed

text \<open>
  Claim C5. Two runs in a row, with nothing edited in between, the first of which
  completes and logs no row error. After the first run the status cell of every row
  that was due is "Posted", and shouldPost rejects the row whatever the date of the
  second run; the first run submitted a post for exactly the due rows, each once, in
  order; and over both runs together no row of any tab is posted twice, whether or
  not the second run completes.
\<close>

theorem two_runs_post_once:
  assumes "trace w0 = []"
    and "sheets w0 ''Peak Share'' = Some share"
    and "sheets w0 ''Peak Generation'' = Some generation"
    and "postToBluesky env1 w0 = (w1, Completed)"
    and "\<not> list_ex row_error (trace w1)"
    and "postToBluesky env2 w1 = (w2, out2)"
  shows "sheets w1 ''Peak Share'' = Some (mark_posted share (due_rows env1 share)) \<and>
         sheets w1 ''Peak Generation'' = Some (mark_posted generation (due_rows env1 generation)) \<and>
         (\<forall>i\<in>set (due_rows env1 share).
            cell (mark_posted share (due_rows env1 share) ! i) 0 = JString ''Posted'' \<and>
            \<not> qualifies (other_dates env2) (tz_offset env2) (today env2)
                (mark_posted share (due_rows env1 share)) i) \<and>
         (\<forall>i\<in>set (due_rows env1 generation).
            cell (mark_posted generation (due_rows env1 generation) ! i) 0 = JString ''Posted'' \<and>
            \<not> qualifies (other_dates env2) (tz_offset env2) (today env2)
                (mark_posted generation (due_rows env1 generation)) i) \<and>
         posted_rows (trace w1) =
           tab_rows env1 ''Peak Share'' share @ tab_rows env1 ''Peak Generation'' generation \<and>
         take (length (posted_rows (trace w1))) (posted_rows (trace w2)) = posted_rows (trace w1) \<and>
         distinct (posted_rows (trace w2))"
proof -
  let ?PS = "''Peak Share''" and ?PG = "''Peak Generation''"
  let ?share1 = "mark_posted share (due_rows env1 share)"
  let ?generation1 = "mark_posted generation (due_rows env1 generation)"
  have d: "distinct SHEET_NAMES" by (simp add: SHEET_NAMES_def)
  from assms(4) obtain s where
    run1: "tabs_loop env1 s SHEET_NAMES
           (emit (CreateSession BSKY_HANDLE APP_PASSWORD) (emit (OpenById SHEET_ID) w0))
         = (w1, Completed)"
    by (rule postToBluesky_Completed)
  have share1: "sheets w1 ?PS = Some ?share1"
    using sheets_tabs_loop [OF d run1 assms(5) refl, of ?PS share] assms(2)
    by (simp add: SHEET_NAMES_def sheets_emit)
  have generation1: "sheets w1 ?PG = Some ?generation1"
    using sheets_tabs_loop [OF d run1 assms(5) refl, of ?PG generation] assms(3)
    by (simp add: SHEET_NAMES_def sheets_emit)
  have marked_share: "\<forall>i\<in>set (due_rows env1 share).
            cell (?share1 ! i) 0 = JString ''Posted'' \<and>
            \<not> qualifies (other_dates env2) (tz_offset env2) (today env2) ?share1 i"
    by (simp add: marked_not_due)
  have marked_generation: "\<forall>i\<in>set (due_rows env1 generation).
            cell (?generation1 ! i) 0 = JString ''Posted'' \<and>
            \<not> qualifies (other_dates env2) (tz_offset env2) (today env2) ?generation1 i"
    by (simp add: marked_not_due)
  have start: "foldl track ([], 0, []) (trace w0) = ([], 0, [])"
    using assms(1) by simp
  from track_postToBluesky [OF assms(4) start]
  obtain t1 r1 where
    first: "foldl track ([], 0, []) (trace w1) =
      (t1, r1, tab_rows env1 ?PS share @ tab_rows env1 ?PG generation)"
    using assms(2,3) by (auto simp: SHEET_NAMES_def)
  then have rows1: "posted_rows (trace w1) =
      tab_rows env1 ?PS share @ tab_rows env1 ?PG generation"
    by (simp add: posted_rows_def)
  from track_postToBluesky [OF assms(6) first]
  obtain k t2 r2 where k0: "k \<le> length SHEET_NAMES" and
    second: "foldl track ([], 0, []) (trace w2) =
      (t2, r2, (tab_rows env1 ?PS share @ tab_rows env1 ?PG generation) @
         concat (map (\<lambda>n. tab_rows env2 n (the (sheets w1 n))) (take k SHEET_NAMES)))"
    by blast
  from k0 have k: "k \<le> 2" by (simp add: SHEET_NAMES_def)
  define rows2 where
    "rows2 = concat (map (\<lambda>n. tab_rows env2 n (the (sheets w1 n))) (take k SHEET_NAMES))"
  from second have "posted_rows (trace w2) =
      (tab_rows env1 ?PS share @ tab_rows env1 ?PG generation) @ rows2"
    by (simp add: posted_rows_def rows2_def)
  then have rows12: "posted_rows (trace w2) = posted_rows (trace w1) @ rows2"
    by (simp only: rows1)
  from k have "k = 0 \<or> k = 1 \<or> k = 2" by arith
  then have rows2_cases: "rows2 = [] \<or> rows2 = tab_rows env2 ?PS ?share1 \<or>
      rows2 = tab_rows env2 ?PS ?share1 @ tab_rows env2 ?PG ?generation1"
    by (auto simp: rows2_def SHEET_NAMES_def share1 generation1)
  have ne: "?PS \<noteq> ?PG" by simp
  have disj_share: "i \<in> set (due_rows env1 share) \<Longrightarrow> i \<notin> set (due_rows env2 ?share1)" for i
    by (rule not_due_after_mark)
  have disj_generation:
    "i \<in> set (due_rows env1 generation) \<Longrightarrow> i \<notin> set (due_rows env2 ?generation1)" for i
    by (rule not_due_after_mark)
  have "distinct (posted_rows (trace w1) @ rows2)"
    using rows2_cases ne disj_share disj_generation
    by (auto simp: rows1 distinct_tab_rows set_tab_rows)
  with rows12 have dist: "distinct (posted_rows (trace w2))" by simp
  from rows12 have "take (length (posted_rows (trace w1))) (posted_rows (trace w2)) =
      posted_rows (trace w1)"
    by simp
  with share1 generation1 marked_share marked_generation rows1 dist show ?thesis
    by blast
qed

theorem two_runs_post_once_witness:
  "snd (postToBluesky (engine never) book) = Completed \<and>
   \<not> list_ex row_error (trace (fst (postToBluesky (engine never) book))) \<and>
   posted_rows (trace (fst (postToBluesky (engine never) book))) = [(''Peak Share'', 2)] \<and>
   sheets (fst (postToBluesky (engine never) book)) ''Peak Share'' =
     Some [header, hello_row [0 := JString ''Posted'']] \<and>
   distinct (posted_rows (trace (fst (postToBluesky (engine never)
     (fst (postToBluesky (engine never) book))))))"
proof -
  let ?w1 = "fst (postToBluesky (engine never) book)"
  let ?w2 = "fst (postToBluesky (engine never) ?w1)"
  have run1: "postToBluesky (engine never) book = (?w1, Completed)"
    by (simp add: sample_run)
  have quiet: "\<not> list_ex row_error (trace ?w1)"
    by (simp add: sample_run)
  have run2: "postToBluesky (engine never) ?w1 = (?w2, snd (postToBluesky (engine never) ?w1))"
    by simp
  have fresh: "trace book = []"
    and share: "sheets book ''Peak Share'' = Some [header, hello_row]"
    and generation: "sheets book ''Peak Generation'' = Some [header]"
    by (simp_all add: book_def)
  have marked: "mark_posted [header, hello_row] [1] = [header, hello_row [0 := JString ''Posted'']]"
    by (simp add: mark_posted_def write_cell_def hello_row_def)
  from two_runs_post_once [OF fresh share generation run1 quiet run2]
  have "sheets ?w1 ''Peak Share'' =
          Some (mark_posted [header, hello_row] (due_rows (engine never) [header, hello_row]))"
    and "posted_rows (trace ?w1) =
          tab_rows (engine never) ''Peak Share'' [header, hello_row] @
          tab_rows (engine never) ''Peak Generation'' [header]"
    and "distinct (posted_rows (trace ?w2))"
    by blast+
  moreover have "snd (postToBluesky (engine never) book) = Completed"
    by (simp add: sample_run)
  ultimately show ?thesis
    using quiet marked by (simp add: tab_rows_def due_rows_share due_rows_generation)
qed

text \<open>
  Claim C6. Tab "Peak Share" holds a header and the row "Ready", "2024-01-01", six
  more cells, "Hello world"; the other tab has no due row; the script is loaded on
  2 January 2024 (local date); nothing throws. Then the run completes, its only post
  has the text "Hello world", and after that request it writes "Posted" at row 2,
  column 1 of "Peak Share", which is the only cell that changes.
\<close>

theorem hello_world_scenario:
  assumes "sheets w ''Peak Share'' =
             Some [hdr, [JString ''Ready'', JString ''2024-01-01'', c2, c3, c4, c5, c6, c7,
                         JString ''Hello world'']]"
    and "sheets w ''Peak Generation'' = Some generation"
    and "due_rows env generation = []"
    and "(load_time env + tz_offset env) div msPerDay = MakeDay 2024 1 2"
    and "\<bar>tz_offset env\<bar> \<le> msPerDay"
    and "\<forall>h e. throws env h e = None"
    and "JSON_session env (auth_body env) = Some s"
  shows "postToBluesky env w =
          (w\<lparr>sheets := (sheets w)(''Peak Share'' \<mapsto>
                  [hdr, [JString ''Posted'', JString ''2024-01-01'', c2, c3, c4, c5, c6, c7,
                         JString ''Hello world'']]),
              trace := trace w @
                [OpenById SHEET_ID,
                 CreateSession BSKY_HANDLE APP_PASSWORD,
                 Logged (Searching ''Peak Share''),
                 GetValues ''Peak Share'',
                 Logged (Posting 2),
                 CreateRecord (accessJwt s)
                   \<lparr>repo = did s, collection = ''app.bsky.feed.post'',
                    record_body = \<lparr>type_tag = ''app.bsky.feed.post'',
                                   post_text = JString ''Hello world'',
                                   createdAt = now_iso env (trace w @
                                     [OpenById SHEET_ID,
                                      CreateSession BSKY_HANDLE APP_PASSWORD,
                                      Logged (Searching ''Peak Share''),
                                      GetValues ''Peak Share'',
                                      Logged (Posting 2)])\<rparr>\<rparr>,
                 SetValue ''Peak Share'' 2 1 (JString ''Posted''),
                 Logged (Searching ''Peak Generation''),
                 GetValues ''Peak Generation'']\<rparr>,
           Completed)"
proof -
  let ?row = "[JString ''Ready'', JString ''2024-01-01'', c2, c3, c4, c5, c6, c7,
               JString ''Hello world'']"
  let ?data = "[hdr, ?row]"
  let ?q = "qualifies (other_dates env) (tz_offset env) (today env)"
  from assms(4) have td: "today env = TimeClip (1704153600000 - tz_offset env)"
    by (simp only: today_def setHours0.simps second_of_january)
  have due: "?q ?data (Suc 0)"
    using new_year_is_due [OF assms(5)]
    by (simp add: qualifies_iff cell_def parse_new_year td del: setHours0.simps)
  have stop: "rows_loop env s n ?data (Suc (Suc 0)) v = (v, Completed)" for n v
    by (simp add: rows_loop_done)
  have first: "rows_loop env s n ?data (Suc 0) v = (postRow env s n ?data (Suc 0) v, Completed)"
    for n v
    using due by (simp add: rows_loop_step stop)
  from assms(3) have second: "rows_loop env s n generation (Suc 0) v = (v, Completed)" for n v
    by (intro rows_loop_none_due) (simp add: due_rows_def)
  show ?thesis
    using assms(1,2,6,7)
    by (simp add: postToBluesky_def SHEET_NAMES_def Let_def first second postRow_def
        postRecord_def emit_def set_value_def write_cell_def cell_def numeral_2_eq_2)
qed

theorem hello_world_scenario_witness:
  "(load_time (engine never) + tz_offset (engine never)) div msPerDay = MakeDay 2024 1 2 \<and>
   \<bar>tz_offset (engine never)\<bar> \<le> msPerDay \<and>
   postToBluesky (engine never) book =
     (book\<lparr>sheets := (sheets book)(''Peak Share'' \<mapsto>
               [header, [JString ''Posted'', JString ''2024-01-01'', JString [], JString [],
                         JString [], JString [], JString [], JString [],
                         JString ''Hello world'']]),
           trace :=
             [OpenById SHEET_ID, CreateSession BSKY_HANDLE APP_PASSWORD,
              Logged (Searching ''Peak Share''), GetValues ''Peak Share'',
              Logged (Posting 2),
              CreateRecord (JString ''jwt'')
                \<lparr>repo = JString ''did:plc:me'', collection = ''app.bsky.feed.post'',
                 record_body = \<lparr>type_tag = ''app.bsky.feed.post'',
                                post_text = JString ''Hello world'',
                                createdAt = ''2024-01-02T12:00:00.000Z''\<rparr>\<rparr>,
              SetValue ''Peak Share'' 2 1 (JString ''Posted''),
              Logged (Searching ''Peak Generation''), GetValues ''Peak Generation'']\<rparr>,
      Completed)"
proof -
  have share: "sheets book ''Peak Share'' =
      Some [header, [JString ''Ready'', JString ''2024-01-01'', JString [], JString [],
                     JString [], JString [], JString [], JString [], JString ''Hello world'']]"
    and generation: "sheets book ''Peak Generation'' = Some [header]"
    by (simp_all add: book_def hello_row_def)
  have day: "(load_time (engine never) + tz_offset (engine never)) div msPerDay = MakeDay 2024 1 2"
    by (simp add: engine_def msPerDay_def MakeDay_def DayFromYear_def)
  have zone: "\<bar>tz_offset (engine never)\<bar> \<le> msPerDay"
    by (simp add: engine_def msPerDay_def)
  have quiet: "\<forall>h e. throws (engine never) h e = None"
    by (simp add: engine_def)
  have session: "JSON_session (engine never) (auth_body (engine never)) = Some the_session"
    by (simp add: engine_def read_session_def)
  from hello_world_scenario [OF share generation due_rows_generation day zone quiet session]
    day zone
  show ?thesis
    by (simp add: book_def the_session_def) (simp add: engine_def clock_def)
qed

text \<open>
  Claim C7. If the session request throws, or the response cannot be read as a
  session, the run aborts: it does not complete, no cell changes, and its only
  events are the opening of the spreadsheet and the session request, so that no tab
  is read, no post submitted and no cell written.
\<close>

theorem auth_failure_aborts:
  assumes "throws env (trace w @ [OpenById SHEET_ID]) (CreateSession BSKY_HANDLE APP_PASSWORD)
             = Some e \<or>
           JSON_session env (auth_body env) = None"
  shows "snd (postToBluesky env w) \<noteq> Completed \<and>
         sheets (fst (postToBluesky env w)) = sheets w \<and>
         (trace (fst (postToBluesky env w)) = trace w @ [OpenById SHEET_ID] \<or>
          trace (fst (postToBluesky env w)) =
            trace w @ [OpenById SHEET_ID, CreateSession BSKY_HANDLE APP_PASSWORD])"
  using assms
  by (auto simp: postToBluesky_def Let_def emit_def split: option.splits)

theorem auth_failure_aborts_witness:
  "throws (engine auth_fails) (trace book @ [OpenById SHEET_ID])
     (CreateSession BSKY_HANDLE APP_PASSWORD) = Some ''Exception: Request failed'' \<and>
   snd (postToBluesky (engine auth_fails) book) = Aborted (Thrown ''Exception: Request failed'') \<and>
   sheets (fst (postToBluesky (engine auth_fails) book)) = sheets book \<and>
   trace (fst (postToBluesky (engine auth_fails) book)) =
     [OpenById SHEET_ID, CreateSession BSKY_HANDLE APP_PASSWORD]"
proof -
  have fails: "throws (engine auth_fails) (trace book @ [OpenById SHEET_ID])
     (CreateSession BSKY_HANDLE APP_PASSWORD) = Some ''Exception: Request failed''"
    by (simp add: engine_def)
  then have "throws (engine auth_fails) (trace book @ [OpenById SHEET_ID])
       (CreateSession BSKY_HANDLE APP_PASSWORD) = Some ''Exception: Request failed'' \<or>
     JSON_session (engine auth_fails) (auth_body (engine auth_fails)) = None"
    by (rule disjI1)
  from auth_failure_aborts [OF this]
  have "sheets (fst (postToBluesky (engine auth_fails) book)) = sheets book"
    by blast
  moreover have "snd (postToBluesky (engine auth_fails) book) =
      Aborted (Thrown ''Exception: Request failed'')"
    and "trace (fst (postToBluesky (engine auth_fails) book)) =
      [OpenById SHEET_ID, CreateSession BSKY_HANDLE APP_PASSWORD]"
    by (simp_all add: postToBluesky_def engine_def Let_def emit_def book_def)
  ultimately show ?thesis
    using fails by simp
qed



text \<open>
  Claim C9. A run comes to a due row \<open>i\<close> of a tab in state \<open>wi\<close>, as in claim C4.
  If the post request for the row succeeds and the write of "Posted" then throws an
  error with text \<open>e\<close>: the error is caught and logged with the same line as a
  posting failure, after the request and the attempted write, and no cell changes;
  these events are part of the run's trace; every later row of the tab that
  shouldPost takes is announced and submitted after them, and when the run completes
  so are the due rows of the tabs that follow; the run completes whenever the tabs
  that follow can be read; and at the end of the run the row is as it was read, its
  status still "Ready", and shouldPost takes it again on the same or any later day:
  it has been posted and will be posted again.
\<close>

theorem write_error_is_caught:
  assumes "postToBluesky env w = (w', out)"
    and "SHEET_NAMES = earlier @ sheetName # later"
    and "JSON_session env (auth_body env) = Some s"
    and "throws env (trace w) (OpenById SHEET_ID) = None"
    and "throws env (trace w @ [OpenById SHEET_ID])
           (CreateSession BSKY_HANDLE APP_PASSWORD) = None"
    and "tabs_loop env s earlier
           (emit (CreateSession BSKY_HANDLE APP_PASSWORD) (emit (OpenById SHEET_ID) w))
         = (wb, Completed)"
    and "sheets w sheetName = Some data"
    and "throws env (trace wb @ [Logged (Searching sheetName)]) (GetValues sheetName) = None"
    and "wi = rows_before env s sheetName data i
                (emit (GetValues sheetName) (emit (Logged (Searching sheetName)) wb))"
    and "1 \<le> i"
    and "i < length data"
    and "qualifies (other_dates env) (tz_offset env) (today env) data i"
    and "throws env (trace wi @ [Logged (Posting (i + 1))]) (post_request env s data i wi) = None"
    and "throws env (trace wi @ [Logged (Posting (i + 1)), post_request env s data i wi])
           (SetValue sheetName (i + 1) 1 (JString ''Posted'')) = Some e"
  shows "postRow env s sheetName data i wi =
           wi\<lparr>trace := trace wi @ [Logged (Posting (i + 1)), post_request env s data i wi,
                                   SetValue sheetName (i + 1) 1 (JString ''Posted''),
                                   Logged (ErrorPosting (i + 1) e)]\<rparr> \<and>
         sheets (postRow env s sheetName data i wi) = sheets wi \<and>
         prefix (trace wi @ [Logged (Posting (i + 1)), post_request env s data i wi,
                             SetValue sheetName (i + 1) 1 (JString ''Posted''),
                             Logged (ErrorPosting (i + 1) e)]) (trace w') \<and>
         prefix (steps (trace wi) @ row_steps data i @
                 concat (map (row_steps data)
                   (filter (qualifies (other_dates env) (tz_offset env) (today env) data)
                      [i + 1..<length data])))
           (steps (trace w')) \<and>
         (out = Completed \<longrightarrow>
            steps (trace w') =
              steps (trace wi) @ row_steps data i @
              concat (map (row_steps data)
                (filter (qualifies (other_dates env) (tz_offset env) (today env) data)
                   [i + 1..<length data])) @
              concat (map (\<lambda>n. tab_steps env n (the (sheets w n))) later)) \<and>
         ((\<forall>n\<in>set later. sheets w n \<noteq> None \<and> (\<forall>h. throws env h (GetValues n) = None))
            \<longrightarrow> out = Completed) \<and>
         (\<exists>g'. sheets w' sheetName = Some g' \<and> i < length g' \<and> g' ! i = data ! i \<and>
               cell (g' ! i) 0 = JString ''Ready'' \<and>
               (\<forall>u u'. today env = Some u \<longrightarrow> u \<le> u' \<longrightarrow>
                  qualifies (other_dates env) (tz_offset env) (Some u') g' i))"
proof -
  let ?p = "postRow env s sheetName data i wi"
  from assms(13,14) have caught: "?p =
           wi\<lparr>trace := trace wi @ [Logged (Posting (i + 1)), post_request env s data i wi,
                                   SetValue sheetName (i + 1) 1 (JString ''Posted''),
                                   Logged (ErrorPosting (i + 1) e)]\<rparr>"
    by (simp add: postRow_def post_request_def Let_def emit_def)
  then have tr: "trace ?p = trace wi @ [Logged (Posting (i + 1)), post_request env s data i wi,
                                   SetValue sheetName (i + 1) 1 (JString ''Posted''),
                                   Logged (ErrorPosting (i + 1) e)]"
    and same: "sheets ?p = sheets wi"
    by simp_all
  have st: "steps (trace ?p) = steps (trace wi) @ row_steps data i"
    by (rule steps_postRow)
  note reach = run_from_row [OF assms(2-8) assms(10,11) assms(9)]
  from reach(1) assms(1) have
    run: "tabs_loop env s later (fst (rows_loop env s sheetName data i wi)) = (w', out)"
    by simp
  from reach(2) same obtain g where
    g: "sheets ?p sheetName = Some g" "i < length g" "g ! i = data ! i"
    by auto
  have "distinct SHEET_NAMES"
    by (simp add: SHEET_NAMES_def)
  with assms(2) have "distinct (earlier @ sheetName # later)"
    by simp
  then have later: "distinct later"
    by simp
  note rest = rest_of_run [OF run assms(11,12) g(1,2) later reach(4) reach(3)]
  from rest(1) have a: "prefix (trace wi @ [Logged (Posting (i + 1)),
      post_request env s data i wi, SetValue sheetName (i + 1) 1 (JString ''Posted''),
      Logged (ErrorPosting (i + 1) e)]) (trace w')"
    by (simp only: tr)
  from rest(2) have b: "prefix (steps (trace wi) @ row_steps data i @
                 concat (map (row_steps data)
                   (filter (qualifies (other_dates env) (tz_offset env) (today env) data)
                      [i + 1..<length data])))
           (steps (trace w'))"
    by (simp only: st append_assoc)
  from rest(3) have c: "out = Completed \<longrightarrow>
            steps (trace w') =
              steps (trace wi) @ row_steps data i @
              concat (map (row_steps data)
                (filter (qualifies (other_dates env) (tz_offset env) (today env) data)
                   [i + 1..<length data])) @
              concat (map (\<lambda>n. tab_steps env n (the (sheets w n))) later)"
    by (simp only: st append_assoc)
  from rest(4) g(3) obtain g' where
    g': "sheets w' sheetName = Some g'" "i < length g'" "g' ! i = data ! i"
    by auto
  from assms(12) have ready: "cell (data ! i) 0 = JString ''Ready''"
    and content: "truthy (cell (data ! i) 8)"
    and due: "date_le (setHours0 (tz_offset env)
                (newDate (other_dates env) (cell (data ! i) 1))) (today env)"
    by (simp_all add: qualifies_iff)
  have again: "qualifies (other_dates env) (tz_offset env) (Some u') g' i"
    if "today env = Some u" and "u \<le> u'" for u u'
  proof -
    from due that(1) obtain t where
      t: "setHours0 (tz_offset env) (newDate (other_dates env) (cell (data ! i) 1)) = Some t"
      and "t \<le> u"
      by (cases "setHours0 (tz_offset env) (newDate (other_dates env) (cell (data ! i) 1))")
         simp_all
    with that(2) have "t \<le> u'" by simp
    with t ready content g' show ?thesis
      by (simp add: qualifies_iff)
  qed
  from g' ready again have d:
    "\<exists>g'. sheets w' sheetName = Some g' \<and> i < length g' \<and> g' ! i = data ! i \<and>
               cell (g' ! i) 0 = JString ''Ready'' \<and>
               (\<forall>u u'. today env = Some u \<longrightarrow> u \<le> u' \<longrightarrow>
                  qualifies (other_dates env) (tz_offset env) (Some u') g' i)"
    by auto
  note f = rest(5)
  from caught same a b c d f show ?thesis
    by blast
qed

theorem write_error_is_caught_witness:
  "snd (postToBluesky (engine hello_write_fails) ledger) = Completed \<and>
   steps (trace (fst (postToBluesky (engine hello_write_fails) ledger))) =
     [ReadTab ''Peak Share'',
      Announce 2, Submit (JString ''First''),
      Announce 3, Submit (JString ''Hello world''),
      Announce 4, Submit (JString ''Last''),
      ReadTab ''Peak Generation'',
      Announce 2, Submit (JString ''Other'')] \<and>
   filter row_error (trace (fst (postToBluesky (engine hello_write_fails) ledger))) =
     [Logged (ErrorPosting 3 ''Exception: Service error'')] \<and>
   sheets (fst (postToBluesky (engine hello_write_fails) ledger)) ''Peak Share'' =
     Some [header, first_row [0 := JString ''Posted''], hello_row,
           last_row [0 := JString ''Posted'']] \<and>
   today (engine hello_write_fails) = Some 1704150000000 \<and>
   qualifies reject 3600000 (Some 1704236400000)
     [header, first_row [0 := JString ''Posted''], hello_row,
      last_row [0 := JString ''Posted'']] 2"
proof -
  let ?env = "engine hello_write_fails"
  let ?data = "[header, first_row, hello_row, last_row]"
  let ?wb = "emit (CreateSession BSKY_HANDLE APP_PASSWORD) (emit (OpenById SHEET_ID) ledger)"
  let ?wi = "rows_before ?env the_session ''Peak Share'' ?data 2
               (emit (GetValues ''Peak Share'') (emit (Logged (Searching ''Peak Share'')) ?wb))"
  let ?w' = "fst (postToBluesky ?env ledger)"
  have completed: "snd (postToBluesky ?env ledger) = Completed"
    by (simp add: run_simps ledger_def)
  then have run: "postToBluesky ?env ledger = (?w', Completed)"
    by (simp add: prod_eq_iff)
  have names: "SHEET_NAMES = [] @ ''Peak Share'' # [''Peak Generation'']"
    by (simp add: SHEET_NAMES_def)
  have session: "JSON_session ?env (auth_body ?env) = Some the_session"
    by (simp add: engine_def read_session_def)
  have opened: "throws ?env (trace ledger) (OpenById SHEET_ID) = None"
    and authed: "throws ?env (trace ledger @ [OpenById SHEET_ID])
                   (CreateSession BSKY_HANDLE APP_PASSWORD) = None"
    and read: "throws ?env (trace ?wb @ [Logged (Searching ''Peak Share'')])
                 (GetValues ''Peak Share'') = None"
    by (simp_all add: engine_def)
  have earlier: "tabs_loop ?env the_session [] ?wb = (?wb, Completed)"
    by simp
  have data: "sheets ledger ''Peak Share'' = Some ?data"
    by (simp add: ledger_def)
  have posts: "throws ?env (trace ?wi @ [Logged (Posting (2 + 1))])
      (post_request ?env the_session ?data 2 ?wi) = None"
    by (simp add: engine_def post_request_def)
  have fails: "throws ?env (trace ?wi @ [Logged (Posting (2 + 1)),
        post_request ?env the_session ?data 2 ?wi])
      (SetValue ''Peak Share'' (2 + 1) 1 (JString ''Posted'')) = Some ''Exception: Service error''"
    by (simp add: engine_def)
  note caught = write_error_is_caught [OF run names session opened authed earlier data read
      refl _ _ _ posts fails]
  have "(1::nat) \<le> 2" and "(2::nat) < length ?data"
    and "qualifies (other_dates ?env) (tz_offset ?env) (today ?env) ?data 2"
    by (simp_all add: ledger_due)
  from caught [OF this] obtain g' where
    order0: "steps (trace ?w') =
       steps (trace ?wi) @ row_steps ?data 2 @
       concat (map (row_steps ?data)
         (filter (qualifies (other_dates ?env) (tz_offset ?env) (today ?env) ?data)
            [2 + 1..<length ?data])) @
       concat (map (\<lambda>n. tab_steps ?env n (the (sheets ledger n))) [''Peak Generation''])"
    and g': "sheets ?w' ''Peak Share'' = Some g'"
    and again: "\<forall>u u'. today ?env = Some u \<longrightarrow> u \<le> u' \<longrightarrow>
                  qualifies (other_dates ?env) (tz_offset ?env) (Some u') g' 2"
    by blast
  have "steps (trace ?wi) =
      [ReadTab ''Peak Share'', Announce 2, Submit (JString ''First'')]"
    by (simp add: rows_before_def upt_conv_Cons run_simps ledger_def)
  moreover have "row_steps ?data 2 = [Announce 3, Submit (JString ''Hello world'')]"
    by (simp add: row_steps_def ledger_cells)
  moreover have "concat (map (row_steps ?data)
         (filter (qualifies (other_dates ?env) (tz_offset ?env) (today ?env) ?data)
            [2 + 1..<length ?data])) = [Announce 4, Submit (JString ''Last'')]"
    by (simp add: upt_conv_Cons ledger_due row_steps_def ledger_cells)
  moreover have "concat (map (\<lambda>n. tab_steps ?env n (the (sheets ledger n)))
      [''Peak Generation'']) =
      [ReadTab ''Peak Generation'', Announce 2, Submit (JString ''Other'')]"
    by (simp add: ledger_def tab_steps_def ledger_due row_steps_def ledger_cells)
  ultimately have order: "steps (trace ?w') =
     [ReadTab ''Peak Share'',
      Announce 2, Submit (JString ''First''),
      Announce 3, Submit (JString ''Hello world''),
      Announce 4, Submit (JString ''Last''),
      ReadTab ''Peak Generation'',
      Announce 2, Submit (JString ''Other'')]"
    using order0 by simp
  have errors: "filter row_error (trace ?w') =
     [Logged (ErrorPosting 3 ''Exception: Service error'')]"
    by (simp add: run_simps ledger_def)
  have cells: "sheets ?w' ''Peak Share'' =
     Some [header, first_row [0 := JString ''Posted''], hello_row,
           last_row [0 := JString ''Posted'']]"
    by (simp add: run_simps ledger_def)
  with g' have g'_eq: "g' = [header, first_row [0 := JString ''Posted''], hello_row,
           last_row [0 := JString ''Posted'']]"
    by simp
  from again have "qualifies (other_dates ?env) (tz_offset ?env) (Some 1704236400000) g' 2"
    by (simp add: today_engine)
  then have next_day: "qualifies reject 3600000 (Some 1704236400000)
     [header, first_row [0 := JString ''Posted''], hello_row,
      last_row [0 := JString ''Posted'']] 2"
    by (simp add: g'_eq) (simp add: engine_def)
  from completed order errors cells next_day show ?thesis
    by (simp add: today_engine)
qed

text \<open>
  Claim C10. For every row whose content cell holds the number 0 or the boolean
  \<^verbatim>\<open>false\<close>, the cell is not empty, and shouldPost returns that falsy value itself,
  which the caller's \<^verbatim>\<open>if\<close> takes as false: the row is not posted.
\<close>

theorem shouldPost_falsy_content:
  assumes "i < length data"
    and "cell (data ! i) 8 = JNumber 0 \<or> cell (data ! i) 8 = JBoolean False"
  shows "\<not> cell_empty (cell (data ! i) 8) \<and>
         shouldPost other z td data i = Some (cell (data ! i) 8) \<and>
         \<not> truthy (cell (data ! i) 8) \<and> \<not> qualifies other z td data i"
proof -
  from assms(2) have falsy: "\<not> truthy (cell (data ! i) 8)"
    by auto
  from assms(2) have "\<not> cell_empty (cell (data ! i) 8)"
    by (auto simp: cell_empty_def)
  with falsy assms(1) show ?thesis
    by (simp add: shouldPost_value qualifies_iff)
qed

theorem shouldPost_falsy_content_witness:
  "shouldPost reject 0 (Some 0)
     [[], [JString ''Ready'', JDate (Some 0), JString [], JString [], JString [],
        JString [], JString [], JString [], JNumber 0]] 1 = Some (JNumber 0) \<and>
   \<not> qualifies reject 0 (Some 0)
     [[], [JString ''Ready'', JDate (Some 0), JString [], JString [], JString [],
        JString [], JString [], JString [], JNumber 0]] 1"
  using shouldPost_falsy_content [of 1 "[[], [JString ''Ready'', JDate (Some 0), JString [],
     JString [], JString [], JString [], JString [], JString [], JNumber 0]]" reject 0 "Some 0"]
  by (simp add: cell_def)

end
